theory Spec2Isabelle
  imports Complex_Main
begin

section \<open>Values of type double\<close>

text \<open>
  The calculator computes with the C++ type \<^verbatim>\<open>double\<close>: IEEE-754 binary64 with the default
  rounding (to nearest, ties to even). A finite value is \<open>Finite s m e\<close>, standing for
  \<open>(-1)^s * m * 2^e\<close>; the values the operations below produce are in the format's
  canonical form (\<open>2^52 \<le> m < 2^53\<close> and \<open>-1074 \<le> e \<le> 971\<close> for a normal number,
  \<open>m < 2^52\<close> and \<open>e = -1074\<close> for a subnormal number or a zero). The payload and the sign
  of a NaN are not modelled.
\<close>

datatype double = Finite bool nat int | Infinity bool | NaN

text \<open>The number of digits of \<open>n\<close> in base \<open>b\<close> (0 for \<open>n = 0\<close>).\<close>

fun numlen :: "nat \<Rightarrow> nat \<Rightarrow> nat" where
  "numlen b n = (if n = 0 \<or> b < 2 then 0 else 1 + numlen b (n div b))"

declare numlen.simps [simp del]

text \<open>
  \<open>floor (log b (n / d))\<close> for positive \<open>n\<close> and \<open>d\<close>. When \<open>d \<le> n\<close> it is one less than the
  number of digits of the quotient. When \<open>n < d\<close> it is \<open>- k\<close> for the least \<open>k\<close> with
  \<open>d \<le> n * b^k\<close>, which is the number of digits of \<open>(d - 1) div n\<close>.
\<close>

definition ilog_ratio :: "nat \<Rightarrow> nat \<Rightarrow> nat \<Rightarrow> int" where
  "ilog_ratio b n d =
     (if d \<le> n then int (numlen b (n div d)) - 1 else - int (numlen b ((d - 1) div n)))"

text \<open>
  \<open>n / d\<close> rounded to the nearest integer, a tie to the even one: the quotient \<open>q\<close> or
  \<open>q + 1\<close>, by the remainder \<open>r\<close>.
\<close>

definition nearest_even :: "nat \<Rightarrow> nat \<Rightarrow> nat \<Rightarrow> nat" where
  "nearest_even q r d =
     (if 2 * r < d then q else if d < 2 * r then q + 1 else if even q then q else q + 1)"

definition round_half_even :: "nat \<Rightarrow> nat \<Rightarrow> nat" where
  "round_half_even n d = nearest_even (n div d) (n mod d) d"

text \<open>\<open>n / (d * b^k)\<close> rounded to the nearest integer, for any integer \<open>k\<close>.\<close>

definition round_scaled :: "nat \<Rightarrow> nat \<Rightarrow> nat \<Rightarrow> int \<Rightarrow> nat" where
  "round_scaled b n d k =
     (if 0 \<le> k then round_half_even n (d * b ^ nat k) else round_half_even (n * b ^ nat (- k)) d)"

text \<open>
  The double nearest to \<open>(-1)^s * n / d\<close> (\<open>d > 0\<close>). The value is rounded to a multiple of
  \<open>2^e\<close>, where \<open>e\<close> leaves 53 significant bits and is no less than \<open>-1074\<close> (gradual
  underflow); a significand that rounds up to \<open>2^53\<close> moves to the next exponent; the
  result is an infinity when it exceeds the largest finite double.
\<close>

definition pack_double :: "bool \<Rightarrow> nat \<Rightarrow> int \<Rightarrow> double" where
  "pack_double s m e =
     (if m = 2 ^ 53 then (if 971 < e + 1 then Infinity s else Finite s (2 ^ 52) (e + 1))
      else if 971 < e then Infinity s
      else Finite s m e)"

definition round_at :: "bool \<Rightarrow> nat \<Rightarrow> nat \<Rightarrow> int \<Rightarrow> double" where
  "round_at s n d e = pack_double s (round_scaled 2 n d e) e"

definition round_to_double :: "bool \<Rightarrow> nat \<Rightarrow> nat \<Rightarrow> double" where
  "round_to_double s n d =
     (if n = 0 then Finite s 0 (- 1074)
      else round_at s n d (max (ilog_ratio 2 n d - 52) (- 1074)))"

text \<open>The double nearest to \<open>c * 2^g\<close> for an integer \<open>c\<close> other than 0.\<close>

definition double_of_scaled :: "int \<Rightarrow> int \<Rightarrow> double" where
  "double_of_scaled c g =
     (if 0 \<le> g then round_to_double (c < 0) (nat \<bar>c\<bar> * 2 ^ nat g) 1
      else round_to_double (c < 0) (nat \<bar>c\<bar>) (2 ^ nat (- g)))"

text \<open>
  The operator \<^verbatim>\<open>+\<close> on doubles. The exact sum of two finite doubles is an integer
  multiple \<open>c\<close> of \<open>2^g\<close>, with \<open>g\<close> the smaller exponent. A sum that is zero is \<open>-0\<close> only
  when both operands are negative.
\<close>

definition signed :: "bool \<Rightarrow> nat \<Rightarrow> int" where
  "signed s m = (if s then - int m else int m)"

definition sum_at :: "bool \<Rightarrow> bool \<Rightarrow> int \<Rightarrow> int \<Rightarrow> double" where
  "sum_at s t c g = (if c = 0 then Finite (s \<and> t) 0 (- 1074) else double_of_scaled c g)"

fun dadd :: "double \<Rightarrow> double \<Rightarrow> double" where
  "dadd NaN y = NaN"
| "dadd x NaN = NaN"
| "dadd (Infinity s) (Infinity t) = (if s = t then Infinity s else NaN)"
| "dadd (Infinity s) (Finite t n f) = Infinity s"
| "dadd (Finite s m e) (Infinity t) = Infinity t"
| "dadd (Finite s m e) (Finite t n f) =
     sum_at s t (signed s m * 2 ^ nat (e - min e f) + signed t n * 2 ^ nat (f - min e f)) (min e f)"

text \<open>
  The operator \<^verbatim>\<open>*\<close> on doubles. The sign of the product is the exclusive or of the
  signs, also when the product is zero.
\<close>

fun dmul :: "double \<Rightarrow> double \<Rightarrow> double" where
  "dmul NaN y = NaN"
| "dmul x NaN = NaN"
| "dmul (Infinity s) (Infinity t) = Infinity (s \<noteq> t)"
| "dmul (Infinity s) (Finite t n f) = (if n = 0 then NaN else Infinity (s \<noteq> t))"
| "dmul (Finite s m e) (Infinity t) = (if m = 0 then NaN else Infinity (s \<noteq> t))"
| "dmul (Finite s m e) (Finite t n f) =
     (if m * n = 0 then Finite (s \<noteq> t) 0 (- 1074)
      else double_of_scaled (signed (s \<noteq> t) (m * n)) (e + f))"

text \<open>The rational number a finite double stands for.\<close>

fun valof :: "double \<Rightarrow> rat option" where
  "valof (Finite s m e) =
     Some ((if s then - 1 else 1) * of_nat m * (if 0 \<le> e then 2 ^ nat e else 1 / 2 ^ nat (- e)))"
| "valof (Infinity s) = None"
| "valof NaN = None"

text \<open>The value \<^verbatim>\<open>0\<close> of type double, the default of a token's value.\<close>

definition double_zero :: double where
  "double_zero = Finite False 0 (- 1074)"

section \<open>Exceptions\<close>

text \<open>
  Every failure of the program is a C++ exception derived from \<^verbatim>\<open>std::exception\<close>. The
  program itself throws \<^verbatim>\<open>std::runtime_error\<close> with a fixed message and nothing else in it;
  \<^verbatim>\<open>std::stod\<close> and \<^verbatim>\<open>std::string::substr\<close> throw \<^verbatim>\<open>std::invalid_argument\<close> and
  \<^verbatim>\<open>std::out_of_range\<close>, whose messages the library chooses. A function that can throw
  returns \<open>exn + 'a\<close>, with \<open>Inl\<close> for the exception.
\<close>

datatype exn = runtime_error string | invalid_argument | out_of_range

section \<open>Characters and the library's string conversions\<close>

text \<open>
  \<^verbatim>\<open>std::isspace\<close> and \<^verbatim>\<open>std::isdigit\<close> in the default "C" locale, which the program
  never changes: the space and the five control characters from tab to carriage return,
  and the ten decimal digits. No byte over 127 is in either class.
\<close>

definition isspace :: "char \<Rightarrow> bool" where
  "isspace c = (c \<in> set [CHR '' '', CHR 0x09, CHR 0x0A, CHR 0x0B, CHR 0x0C, CHR 0x0D])"

definition isdigit :: "char \<Rightarrow> bool" where
  "isdigit c = (c \<in> set ''0123456789'')"

definition digit_value :: "char \<Rightarrow> nat" where
  "digit_value c = of_char c - 48"

definition digits_value :: "string \<Rightarrow> nat" where
  "digits_value ds = foldl (\<lambda>a c. 10 * a + digit_value c) 0 ds"

text \<open>
  \<^verbatim>\<open>std::string::substr(p, n)\<close>: the characters from position \<open>p\<close>, at most \<open>n\<close> of them;
  a position past the end throws.
\<close>

definition substr :: "string \<Rightarrow> nat \<Rightarrow> nat \<Rightarrow> exn + string" where
  "substr s p n = (if length s < p then Inl out_of_range else Inr (take n (drop p s)))"

text \<open>
  \<^verbatim>\<open>std::stod(s)\<close> with its second argument left out, as \<^verbatim>\<open>Lexer::number\<close> calls it. It
  converts the longest prefix of \<open>s\<close> that is a number and ignores the rest of \<open>s\<close>; with no
  such prefix it throws \<^verbatim>\<open>std::invalid_argument\<close>, and \<^verbatim>\<open>std::out_of_range\<close> when the
  value is too large for a double. The model covers the strings \<^verbatim>\<open>Lexer::number\<close> can pass,
  which hold decimal digits and points only: there the prefix is a run of digits, then at
  most one point with the digits after it, with a digit somewhere; its value is rounded to
  the nearest double. (Whitespace, signs, exponents, hexadecimal digits, \<^verbatim>\<open>inf\<close> and
  \<^verbatim>\<open>nan\<close>, which \<^verbatim>\<open>std::stod\<close> reads as well, cannot occur in them. Whether a value too
  small for a normal double is an error is left to the implementation by the C standard;
  the model returns the rounded value.)
\<close>

definition stod :: "string \<Rightarrow> exn + double" where
  "stod s =
     (let ip = takeWhile isdigit s;
          r = dropWhile isdigit s;
          fp = (case r of [] \<Rightarrow> [] | c # r' \<Rightarrow> if c = CHR ''.'' then takeWhile isdigit r' else [])
      in if ip = [] \<and> fp = [] then Inl invalid_argument
         else case round_to_double False (digits_value (ip @ fp)) (10 ^ length fp) of
                Finite s m e \<Rightarrow> Inr (Finite s m e)
              | Infinity s \<Rightarrow> Inl out_of_range
              | NaN \<Rightarrow> Inl out_of_range)"

text \<open>
  \<^verbatim>\<open>std::cout << value\<close> for a double, with the stream's default flags and precision 6,
  which is \<^verbatim>\<open>printf\<close>'s \<^verbatim>\<open>%g\<close>: six significant digits, in scientific notation when the
  decimal exponent is under \<open>-4\<close> or at least \<open>6\<close>, trailing zeros removed.
\<close>

definition digit_char :: "nat \<Rightarrow> char" where
  "digit_char n = ''0123456789'' ! n"

fun show_nat :: "nat \<Rightarrow> string" where
  "show_nat n = (if n < 10 then [digit_char n] else show_nat (n div 10) @ [digit_char (n mod 10)])"

declare show_nat.simps [simp del]

definition strip_zeros :: "string \<Rightarrow> string" where
  "strip_zeros s = rev (dropWhile (\<lambda>c. c = CHR ''0'') (rev s))"

definition with_fraction :: "string \<Rightarrow> string \<Rightarrow> string" where
  "with_fraction ip fp = (if strip_zeros fp = [] then ip else ip @ CHR ''.'' # strip_zeros fp)"

definition show_exponent :: "int \<Rightarrow> string" where
  "show_exponent x =
     CHR ''e'' # (if x < 0 then CHR ''-'' else CHR ''+'')
       # (if \<bar>x\<bar> < 10 then CHR ''0'' # show_nat (nat \<bar>x\<bar>) else show_nat (nat \<bar>x\<bar>))"

definition show_digits :: "string \<Rightarrow> int \<Rightarrow> string" where
  "show_digits ds x =
     (if x < - 4 \<or> 6 \<le> x then with_fraction (take 1 ds) (drop 1 ds) @ show_exponent x
      else if 0 \<le> x then with_fraction (take (nat x + 1) ds) (drop (nat x + 1) ds)
      else with_fraction ''0'' (replicate (nat (- x) - 1) CHR ''0'' @ ds))"

definition show_rounded :: "nat \<Rightarrow> int \<Rightarrow> string" where
  "show_rounded sig x =
     (if sig = 10 ^ 6 then show_digits (show_nat (10 ^ 5)) (x + 1) else show_digits (show_nat sig) x)"

definition show_at :: "nat \<Rightarrow> nat \<Rightarrow> int \<Rightarrow> string" where
  "show_at n d x = show_rounded (round_scaled 10 n d (x - 5)) x"

definition show_ratio :: "nat \<Rightarrow> nat \<Rightarrow> string" where
  "show_ratio n d = show_at n d (ilog_ratio 10 n d)"

fun show_double :: "double \<Rightarrow> string" where
  "show_double NaN = ''nan''"
| "show_double (Infinity s) = (if s then ''-inf'' else ''inf'')"
| "show_double (Finite s m e) =
     (if s then ''-'' else [])
       @ (if m = 0 then ''0''
          else if 0 \<le> e then show_ratio (m * 2 ^ nat e) 1
          else show_ratio m (2 ^ nat (- e)))"

section \<open>Tokens and the lexer\<close>

datatype TokenType = NUMBER | PLUS | MUL | LPAREN | RPAREN | END

record Token =
  type :: TokenType
  value' :: double

text \<open>The constructor \<^verbatim>\<open>Token(type, value = 0)\<close> with its default argument.\<close>

definition Token_of :: "TokenType \<Rightarrow> Token" where
  "Token_of t = \<lparr>type = t, value' = double_zero\<rparr>"

text \<open>
  \<^verbatim>\<open>pos\<close> is a \<^verbatim>\<open>size_t\<close>; it is only ever incremented under the test
  \<^verbatim>\<open>pos < input.size()\<close> or after a character has been read at \<^verbatim>\<open>pos\<close>, so it never wraps.
\<close>

record Lexer =
  input :: string
  pos :: nat

definition Lexer_of :: "string \<Rightarrow> Lexer" where
  "Lexer_of s = \<lparr>input = s, pos = 0\<rparr>"

text \<open>The first loop of \<^verbatim>\<open>getNextToken\<close>.\<close>

function skip_spaces :: "Lexer \<Rightarrow> Lexer" where
  "skip_spaces lx =
     (if pos lx < length (input lx) \<and> isspace (input lx ! pos lx)
      then skip_spaces (lx\<lparr>pos := pos lx + 1\<rparr>)
      else lx)"
  by pat_completeness auto
termination
  by (relation "measure (\<lambda>lx. length (input lx) - pos lx)") auto

declare skip_spaces.simps [simp del]

text \<open>The loop of \<^verbatim>\<open>number\<close>.\<close>

function scan_number :: "Lexer \<Rightarrow> Lexer" where
  "scan_number lx =
     (if pos lx < length (input lx) \<and> (isdigit (input lx ! pos lx) \<or> input lx ! pos lx = CHR ''.'')
      then scan_number (lx\<lparr>pos := pos lx + 1\<rparr>)
      else lx)"
  by pat_completeness auto
termination
  by (relation "measure (\<lambda>lx. length (input lx) - pos lx)") auto

declare scan_number.simps [simp del]

definition number :: "Lexer \<Rightarrow> exn + Token \<times> Lexer" where
  "number lx0 =
     (let start_pos = pos lx0;
          lx = scan_number lx0
      in case substr (input lx) start_pos (pos lx - start_pos) of
           Inl e \<Rightarrow> Inl e
         | Inr s \<Rightarrow>
             (case stod s of
                Inl e \<Rightarrow> Inl e
              | Inr v \<Rightarrow> Inr (\<lparr>type = NUMBER, value' = v\<rparr>, lx)))"

definition getNextToken :: "Lexer \<Rightarrow> exn + Token \<times> Lexer" where
  "getNextToken lx0 =
     (let lx = skip_spaces lx0
      in if length (input lx) \<le> pos lx then Inr (Token_of END, lx)
         else
           let current_char = input lx ! pos lx
           in if isdigit current_char then number lx
              else if current_char = CHR ''+'' then Inr (Token_of PLUS, lx\<lparr>pos := pos lx + 1\<rparr>)
              else if current_char = CHR ''*'' then Inr (Token_of MUL, lx\<lparr>pos := pos lx + 1\<rparr>)
              else if current_char = CHR ''('' then Inr (Token_of LPAREN, lx\<lparr>pos := pos lx + 1\<rparr>)
              else if current_char = CHR '')'' then Inr (Token_of RPAREN, lx\<lparr>pos := pos lx + 1\<rparr>)
              else Inl (runtime_error ''Invalid character in input''))"

section \<open>The syntax tree\<close>

text \<open>
  \<^verbatim>\<open>NumberNode\<close> and \<^verbatim>\<open>BinaryOpNode\<close>, the two subclasses of \<^verbatim>\<open>ASTNode\<close>. A
  \<^verbatim>\<open>BinaryOpNode\<close> stores any \<^verbatim>\<open>TokenType\<close> as its operator. The nodes are never modified
  after their construction, so the shared pointers are plain subtrees.
\<close>

datatype ASTNode = NumberNode double | BinaryOpNode TokenType ASTNode ASTNode

text \<open>
  \<^verbatim>\<open>evaluate\<close>. With an operator other than \<^verbatim>\<open>PLUS\<close> and \<^verbatim>\<open>MUL\<close> it throws before it
  looks at the operands. C++ leaves the order of the two recursive calls open; they can
  only throw the same exception, so the order does not show.
\<close>

fun evaluate :: "ASTNode \<Rightarrow> exn + double" where
  "evaluate (NumberNode v) = Inr v"
| "evaluate (BinaryOpNode op left right) =
     (if op = PLUS then
        (case evaluate left of
           Inl e \<Rightarrow> Inl e
         | Inr a \<Rightarrow> (case evaluate right of Inl e \<Rightarrow> Inl e | Inr b \<Rightarrow> Inr (dadd a b)))
      else if op = MUL then
        (case evaluate left of
           Inl e \<Rightarrow> Inl e
         | Inr a \<Rightarrow> (case evaluate right of Inl e \<Rightarrow> Inl e | Inr b \<Rightarrow> Inr (dmul a b)))
      else Inl (runtime_error ''Unknown operator''))"

text \<open>\<^verbatim>\<open>print_infix\<close>: the characters written to \<^verbatim>\<open>std::cout\<close>.\<close>

fun print_infix :: "ASTNode \<Rightarrow> string" where
  "print_infix (NumberNode v) = show_double v"
| "print_infix (BinaryOpNode op left right) =
     ''('' @ print_infix left
       @ (if op = PLUS then '' + '' else if op = MUL then '' * '' else [])
       @ print_infix right @ '')''"

text \<open>\<^verbatim>\<open>print_indent\<close> and \<^verbatim>\<open>print_tree\<close>; the indent is an \<^verbatim>\<open>int\<close>.\<close>

definition print_indent :: "int \<Rightarrow> string" where
  "print_indent indent = concat (replicate (nat indent) ''  '')"

fun print_tree :: "ASTNode \<Rightarrow> int \<Rightarrow> string" where
  "print_tree (NumberNode v) indent =
     print_indent indent @ ''Number('' @ show_double v @ '')'' @ [CHR 0x0A]"
| "print_tree (BinaryOpNode op left right) indent =
     print_indent indent @ ''BinaryOp('' @ (if op = PLUS then ''+'' else ''*'') @ '')'' @ [CHR 0x0A]
       @ print_tree left (indent + 1) @ print_tree right (indent + 1)"

section \<open>The parser\<close>

text \<open>
  The parser holds a reference to the lexer and the current token. Nothing else uses the
  lexer while the parser runs, so the parser's state carries the lexer's.
\<close>

record Parser =
  lexer :: Lexer
  current_token :: Token

text \<open>The constructor reads the first token.\<close>

definition Parser_of :: "Lexer \<Rightarrow> exn + Parser" where
  "Parser_of lx =
     (case getNextToken lx of
        Inl e \<Rightarrow> Inl e
      | Inr (t, lx') \<Rightarrow> Inr \<lparr>lexer = lx', current_token = t\<rparr>)"

definition consume :: "Parser \<Rightarrow> TokenType \<Rightarrow> exn + Parser" where
  "consume p expected =
     (if type (current_token p) = expected then
        (case getNextToken (lexer p) of
           Inl e \<Rightarrow> Inl e
         | Inr (t, lx') \<Rightarrow> Inr \<lparr>lexer = lx', current_token = t\<rparr>)
      else Inl (runtime_error ''Unexpected token''))"


text \<open>
  \<^verbatim>\<open>expr\<close>, \<^verbatim>\<open>term\<close> and \<^verbatim>\<open>factor\<close>. Each returns the node and the state it leaves the
  parser in. \<open>expr_loop\<close> and \<open>term_loop\<close> are the \<^verbatim>\<open>while\<close> loops of \<^verbatim>\<open>expr\<close> and
  \<^verbatim>\<open>term\<close>, with the loop's variable \<^verbatim>\<open>node\<close> as their first argument.
\<close>

function expr :: "Parser \<Rightarrow> exn + ASTNode \<times> Parser"
  and expr_loop :: "ASTNode \<Rightarrow> Parser \<Rightarrow> exn + ASTNode \<times> Parser"
  and term_rule :: "Parser \<Rightarrow> exn + ASTNode \<times> Parser"
  and term_loop :: "ASTNode \<Rightarrow> Parser \<Rightarrow> exn + ASTNode \<times> Parser"
  and factor :: "Parser \<Rightarrow> exn + ASTNode \<times> Parser"
where
  "expr p =
     (case term_rule p of
        Inl e \<Rightarrow> Inl e
      | Inr (node, p1) \<Rightarrow> expr_loop node p1)"
| "expr_loop node p =
     (if type (current_token p) = PLUS then
        (let op = type (current_token p)
         in case consume p PLUS of
              Inl e \<Rightarrow> Inl e
            | Inr p1 \<Rightarrow>
                (case term_rule p1 of
                   Inl e \<Rightarrow> Inl e
                 | Inr (right, p2) \<Rightarrow> expr_loop (BinaryOpNode op node right) p2))
      else Inr (node, p))"
| "term_rule p =
     (case factor p of
        Inl e \<Rightarrow> Inl e
      | Inr (node, p1) \<Rightarrow> term_loop node p1)"
| "term_loop node p =
     (if type (current_token p) = MUL then
        (let op = type (current_token p)
         in case consume p MUL of
              Inl e \<Rightarrow> Inl e
            | Inr p1 \<Rightarrow>
                (case factor p1 of
                   Inl e \<Rightarrow> Inl e
                 | Inr (right, p2) \<Rightarrow> term_loop (BinaryOpNode op node right) p2))
      else Inr (node, p))"
| "factor p =
     (if type (current_token p) = NUMBER then
        (let v = value' (current_token p)
         in case consume p NUMBER of
              Inl e \<Rightarrow> Inl e
            | Inr p1 \<Rightarrow> Inr (NumberNode v, p1))
      else if type (current_token p) = LPAREN then
        (case consume p LPAREN of
           Inl e \<Rightarrow> Inl e
         | Inr p1 \<Rightarrow>
             (case expr p1 of
                Inl e \<Rightarrow> Inl e
              | Inr (node, p2) \<Rightarrow>
                  (case consume p2 RPAREN of
                     Inl e \<Rightarrow> Inl e
                   | Inr p3 \<Rightarrow> Inr (node, p3))))
      else Inl (runtime_error ''Expected number or parentheses''))"
  by pat_completeness auto

text \<open>
  What is left to read: the characters after the lexer's position, and the current token
  unless it is \<^verbatim>\<open>END\<close>. Every \<^verbatim>\<open>consume\<close> that succeeds makes it smaller, which is why
  the parser terminates.
\<close>

definition remaining :: "Parser \<Rightarrow> nat" where
  "remaining p =
     length (input (lexer p)) - pos (lexer p) + (if type (current_token p) = END then 0 else 1)"


text \<open>\<^verbatim>\<open>parse\<close>, with the state the parser is left in.\<close>

definition parse :: "Parser \<Rightarrow> exn + ASTNode \<times> Parser" where
  "parse p = expr p"

section \<open>The read loop\<close>

text \<open>
  The first three statements of the \<^verbatim>\<open>try\<close> block of \<^verbatim>\<open>main\<close>: a lexer on the line, a
  parser on the lexer, and \<^verbatim>\<open>parse\<close>.
\<close>

definition parse_input :: "string \<Rightarrow> exn + ASTNode \<times> Parser" where
  "parse_input s =
     (case Parser_of (Lexer_of s) of
        Inl e \<Rightarrow> Inl e
      | Inr p \<Rightarrow> parse p)"

text \<open>
  The streams: the lines \<^verbatim>\<open>std::cin\<close> still holds, the characters written to
  \<^verbatim>\<open>std::cout\<close>, and the exceptions reported on \<^verbatim>\<open>std::cerr\<close> (each as the line
  \<^verbatim>\<open>Error: \<close> and the exception's message).
\<close>

record World =
  cin :: "string list"
  cout :: string
  cerr :: "exn list"

text \<open>
  \<^verbatim>\<open>std::getline(std::cin, input)\<close> into the empty string \<^verbatim>\<open>input\<close>: the next line, or
  nothing when the stream is at its end (the string stays empty and the stream fails;
  \<^verbatim>\<open>main\<close> does not look at the stream's state).
\<close>

definition getline :: "World \<Rightarrow> string \<times> World" where
  "getline w = (case cin w of [] \<Rightarrow> ([], w) | l # ls \<Rightarrow> (l, w\<lparr>cin := ls\<rparr>))"

text \<open>The \<^verbatim>\<open>try\<close> block of \<^verbatim>\<open>main\<close> and its handler.\<close>

definition try_line :: "string \<Rightarrow> World \<Rightarrow> World" where
  "try_line s w =
     (case parse_input s of
        Inl e \<Rightarrow> w\<lparr>cerr := cerr w @ [e]\<rparr>
      | Inr (ast, p) \<Rightarrow>
          (let w1 = w\<lparr>cout := cout w @ ''Infix notation: '' @ print_infix ast @ [CHR 0x0A]
                        @ ''Tree structure:'' @ [CHR 0x0A] @ print_tree ast 0\<rparr>
           in case evaluate ast of
                Inl e \<Rightarrow> w1\<lparr>cerr := cerr w1 @ [e]\<rparr>
              | Inr result \<Rightarrow>
                  w1\<lparr>cout := cout w1 @ ''Result: '' @ show_double result @ [CHR 0x0A]\<rparr>))"

text \<open>The body of the \<^verbatim>\<open>while\<close> loop of \<^verbatim>\<open>main\<close>.\<close>

definition main_body :: "World \<Rightarrow> World" where
  "main_body w =
     (let w1 = w\<lparr>cout := cout w @ ''>>> ''\<rparr>;
          (s, w2) = getline w1
      in try_line s w2)"

text \<open>
  The loop \<^verbatim>\<open>while (is_running)\<close>. Nothing assigns to \<^verbatim>\<open>is_running\<close>, so the loop passes
  it on unchanged. A run that does not return is \<open>None\<close>.
\<close>

partial_function (option) main_loop :: "bool \<Rightarrow> World \<Rightarrow> World option" where
  "main_loop is_running w =
     (if is_running then main_loop is_running (main_body w) else Some w)"

text \<open>\<^verbatim>\<open>main\<close>: its exit status and what it has done to the streams, if it returns.\<close>

definition main :: "World \<Rightarrow> (int \<times> World) option" where
  "main w = (case main_loop True w of None \<Rightarrow> None | Some w' \<Rightarrow> Some (0, w'))"

section \<open>Notions the statements use\<close>

text \<open>The double an integer constant of the program text converts to.\<close>

definition double_of_nat :: "nat \<Rightarrow> double" where
  "double_of_nat n = round_to_double False n 1"

text \<open>A tree all of whose binary nodes have the operator \<^verbatim>\<open>PLUS\<close> or \<^verbatim>\<open>MUL\<close>.\<close>

fun plus_mul_only :: "ASTNode \<Rightarrow> bool" where
  "plus_mul_only (NumberNode v) = True"
| "plus_mul_only (BinaryOpNode op left right) =
     ((op = PLUS \<or> op = MUL) \<and> plus_mul_only left \<and> plus_mul_only right)"

text \<open>The tree \<^verbatim>\<open>main\<close> gets from the parser for a line.\<close>

definition parse_tree :: "string \<Rightarrow> exn + ASTNode" where
  "parse_tree s = (case parse_input s of Inl e \<Rightarrow> Inl e | Inr (ast, p) \<Rightarrow> Inr ast)"

text \<open>
  The maximal run of digits and points at the lexer's position, and the longest prefix of
  a string that is a well-formed literal: digits, then at most one point and the digits
  after it.
\<close>

definition digit_run :: "Lexer \<Rightarrow> string" where
  "digit_run lx = takeWhile (\<lambda>c. isdigit c \<or> c = CHR ''.'') (drop (pos lx) (input lx))"

definition literal_prefix :: "string \<Rightarrow> string" where
  "literal_prefix s =
     takeWhile isdigit s
       @ (case dropWhile isdigit s of
            [] \<Rightarrow> []
          | c # r \<Rightarrow> if c = CHR ''.'' then c # takeWhile isdigit r else [])"

text \<open>\<open>n\<close> calls of \<^verbatim>\<open>getNextToken\<close> in a row: the tokens they return and the lexer after them.\<close>

fun getNextTokens :: "nat \<Rightarrow> Lexer \<Rightarrow> exn + Token list \<times> Lexer" where
  "getNextTokens 0 lx = Inr ([], lx)"
| "getNextTokens (Suc n) lx =
     (case getNextToken lx of
        Inl e \<Rightarrow> Inl e
      | Inr (t, lx1) \<Rightarrow>
          (case getNextTokens n lx1 of
             Inl e \<Rightarrow> Inl e
           | Inr (ts, lx2) \<Rightarrow> Inr (t # ts, lx2)))"

text \<open>
  No literal runs across the place where \<open>t\<close> is appended to \<open>e\<close>: \<open>e\<close> does not end, or
  \<open>t\<close> does not begin, with a character the loop of \<^verbatim>\<open>number\<close> scans over (a digit or a
  point). Then the tokens of \<open>e\<close> are tokens of \<open>e @ t\<close> as well.
\<close>

definition apart :: "string \<Rightarrow> string \<Rightarrow> bool" where
  "apart e t =
     (e = [] \<or> t = [] \<or> \<not> (isdigit (last e) \<or> last e = CHR ''.'')
        \<or> \<not> (isdigit (hd t) \<or> hd t = CHR ''.''))"

text \<open>
  A parser \<open>p\<close> on the line \<open>e\<close> and a parser \<open>q\<close> on the line \<open>e @ t\<close> that have read the same
  tokens. While \<open>p\<close> has not reached the end of \<open>e\<close>, \<open>q\<close> is at the same position with the same
  current token; once \<open>p\<close> holds \<^verbatim>\<open>END\<close>, \<open>q\<close> is the state \<open>q_end\<close>, which holds the first token
  of \<open>t\<close>.
\<close>

definition in_step :: "string \<Rightarrow> string \<Rightarrow> Parser \<Rightarrow> Parser \<Rightarrow> Parser \<Rightarrow> bool" where
  "in_step e t q_end p q =
     (input (lexer p) = e \<and>
      (if type (current_token p) = END then q = q_end
       else pos (lexer p) \<le> length e
          \<and> q = \<lparr>lexer = \<lparr>input = e @ t, pos = pos (lexer p)\<rparr>,
                 current_token = current_token p\<rparr>))"

section \<open>The lexer moves forward\<close>

lemma skip_spaces_input: "input (skip_spaces lx) = input lx"
  by (induction lx rule: skip_spaces.induct) (subst skip_spaces.simps, simp)

lemma skip_spaces_pos: "pos lx \<le> pos (skip_spaces lx)"
proof (induction lx rule: skip_spaces.induct)
  case (1 lx)
  show ?case
  proof (cases "pos lx < length (input lx) \<and> isspace (input lx ! pos lx)")
    case True
    with 1 have "pos lx + 1 \<le> pos (skip_spaces (lx\<lparr>pos := pos lx + 1\<rparr>))" by simp
    with True show ?thesis by (subst skip_spaces.simps) simp
  next
    case False
    then show ?thesis by (subst skip_spaces.simps) auto
  qed
qed

lemma scan_number_input: "input (scan_number lx) = input lx"
  by (induction lx rule: scan_number.induct) (subst scan_number.simps, simp)

lemma scan_number_pos: "pos lx \<le> pos (scan_number lx)"
proof (induction lx rule: scan_number.induct)
  case (1 lx)
  show ?case
  proof (cases "pos lx < length (input lx) \<and> (isdigit (input lx ! pos lx) \<or> input lx ! pos lx = CHR ''.'')")
    case True
    with 1 have "pos lx + 1 \<le> pos (scan_number (lx\<lparr>pos := pos lx + 1\<rparr>))" by simp
    with True show ?thesis by (subst scan_number.simps) simp
  next
    case False
    then show ?thesis by (subst scan_number.simps) auto
  qed
qed

lemma scan_number_advances:
  assumes "pos lx < length (input lx)" and "isdigit (input lx ! pos lx)"
  shows "pos lx < pos (scan_number lx)"
proof -
  have "pos lx + 1 \<le> pos (scan_number (lx\<lparr>pos := pos lx + 1\<rparr>))"
    using scan_number_pos [of "lx\<lparr>pos := pos lx + 1\<rparr>"] by simp
  with assms show ?thesis by (subst scan_number.simps) simp
qed

lemma number_result:
  assumes "number lx = Inr (t, lx')"
  shows "type t = NUMBER \<and> lx' = scan_number lx"
  using assms by (auto simp: number_def Let_def split: sum.splits)

lemma getNextToken_input:
  assumes "getNextToken lx = Inr (t, lx')"
  shows "input lx' = input lx"
  using assms
  by (auto simp: getNextToken_def Let_def skip_spaces_input scan_number_input
      dest!: number_result split: if_splits)

lemma getNextToken_END:
  assumes "getNextToken lx = Inr (t, lx')" and "type t = END"
  shows "pos lx \<le> pos lx'"
  using assms skip_spaces_pos [of lx]
  by (auto simp: getNextToken_def Let_def Token_of_def dest!: number_result split: if_splits)

lemma getNextToken_advances:
  assumes "getNextToken lx = Inr (t, lx')" and "type t \<noteq> END"
  shows "pos lx < pos lx' \<and> pos lx < length (input lx)"
proof -
  let ?s = "skip_spaces lx"
  from assms have in_range: "pos ?s < length (input ?s)"
    by (auto simp: getNextToken_def Let_def Token_of_def split: if_splits)
  have "pos ?s < pos lx'"
  proof (cases "isdigit (input ?s ! pos ?s)")
    case True
    with assms in_range have "lx' = scan_number ?s"
      by (auto simp: getNextToken_def Let_def dest!: number_result)
    with True in_range show ?thesis by (simp add: scan_number_advances)
  next
    case False
    with assms in_range show ?thesis
      by (auto simp: getNextToken_def Let_def split: if_splits)
  qed
  with skip_spaces_pos [of lx] in_range show ?thesis by (simp add: skip_spaces_input)
qed

lemma consume_remaining:
  assumes "consume p expected = Inr p'" and "expected \<noteq> END"
  shows "remaining p' < remaining p"
proof -
  from assms obtain t lx' where tok: "getNextToken (lexer p) = Inr (t, lx')"
    and p': "p' = \<lparr>lexer = lx', current_token = t\<rparr>" and cur: "type (current_token p) = expected"
    by (auto simp: consume_def split: if_splits sum.splits)
  show ?thesis
  proof (cases "type t = END")
    case True
    with tok p' cur assms(2) getNextToken_END [OF tok] getNextToken_input [OF tok]
    show ?thesis by (simp add: remaining_def)
  next
    case False
    with tok p' cur assms(2) getNextToken_advances [OF tok] getNextToken_input [OF tok]
    show ?thesis by (auto simp: remaining_def)
  qed
qed


section \<open>The parser terminates\<close>


lemma parser_remaining_partial:
  "expr_expr_loop_term_rule_term_loop_factor_dom (Inl (Inl p)) \<Longrightarrow>
     expr p = Inr (n, p') \<Longrightarrow> remaining p' \<le> remaining p"
  "expr_expr_loop_term_rule_term_loop_factor_dom (Inl (Inr (node, q))) \<Longrightarrow>
     expr_loop node q = Inr (n, q') \<Longrightarrow> remaining q' \<le> remaining q"
  "expr_expr_loop_term_rule_term_loop_factor_dom (Inr (Inl r)) \<Longrightarrow>
     term_rule r = Inr (n, r') \<Longrightarrow> remaining r' \<le> remaining r"
  "expr_expr_loop_term_rule_term_loop_factor_dom (Inr (Inr (Inl (node', u)))) \<Longrightarrow>
     term_loop node' u = Inr (n, u') \<Longrightarrow> remaining u' \<le> remaining u"
  "expr_expr_loop_term_rule_term_loop_factor_dom (Inr (Inr (Inr v))) \<Longrightarrow>
     factor v = Inr (n, v') \<Longrightarrow> remaining v' \<le> remaining v"
proof (induction p and node q and r and node' u and v
    arbitrary: n p' and n q' and n r' and n u' and n v'
    rule: expr_expr_loop_term_rule_term_loop_factor.pinduct)
  case (1 p)
  from "1.prems" "1.hyps" obtain node p1
    where t: "term_rule p = Inr (node, p1)" and l: "expr_loop node p1 = Inr (n, p')"
    by (auto simp: expr.psimps split: sum.splits)
  from "1.IH"(1) [OF t] "1.IH"(2) [OF t refl l] show ?case by simp
next
  case (2 node p)
  show ?case
  proof (cases "type (current_token p) = PLUS")
    case True
    with "2.prems" "2.hyps" obtain p1 right p2
      where c: "consume p PLUS = Inr p1" and t: "term_rule p1 = Inr (right, p2)"
        and l: "expr_loop (BinaryOpNode (type (current_token p)) node right) p2 = Inr (n, q')"
      by (auto simp: expr_loop.psimps Let_def split: sum.splits)
    from consume_remaining [OF c] "2.IH"(1) [OF True refl c t]
      "2.IH"(2) [OF True refl c t refl l]
    show ?thesis by simp
  next
    case False
    with "2.prems" "2.hyps" show ?thesis by (simp add: expr_loop.psimps)
  qed
next
  case (3 p)
  from "3.prems" "3.hyps" obtain node p1
    where t: "factor p = Inr (node, p1)" and l: "term_loop node p1 = Inr (n, r')"
    by (auto simp: term_rule.psimps split: sum.splits)
  from "3.IH"(1) [OF t] "3.IH"(2) [OF t refl l] show ?case by simp
next
  case (4 node p)
  show ?case
  proof (cases "type (current_token p) = MUL")
    case True
    with "4.prems" "4.hyps" obtain p1 right p2
      where c: "consume p MUL = Inr p1" and t: "factor p1 = Inr (right, p2)"
        and l: "term_loop (BinaryOpNode (type (current_token p)) node right) p2 = Inr (n, u')"
      by (auto simp: term_loop.psimps Let_def split: sum.splits)
    from consume_remaining [OF c] "4.IH"(1) [OF True refl c t]
      "4.IH"(2) [OF True refl c t refl l]
    show ?thesis by simp
  next
    case False
    with "4.prems" "4.hyps" show ?thesis by (simp add: term_loop.psimps)
  qed
next
  case (5 p)
  show ?case
  proof (cases "type (current_token p) = NUMBER")
    case True
    with "5.prems" "5.hyps" have "consume p NUMBER = Inr v'"
      by (auto simp: factor.psimps Let_def split: sum.splits)
    from consume_remaining [OF this] show ?thesis by simp
  next
    case False
    with "5.prems" "5.hyps" obtain p1 p2
      where lp: "type (current_token p) = LPAREN" and c: "consume p LPAREN = Inr p1"
        and e: "expr p1 = Inr (n, p2)" and c2: "consume p2 RPAREN = Inr v'"
      by (auto simp: factor.psimps split: sum.splits if_splits)
    from consume_remaining [OF c] "5.IH" [OF False lp c e] consume_remaining [OF c2]
    show ?thesis by simp
  qed
qed

termination expr
proof (relation "measure (\<lambda>x. case x of
      Inl (Inl p) \<Rightarrow> 5 * remaining p + 4
    | Inl (Inr (node, p)) \<Rightarrow> 5 * remaining p + 3
    | Inr (Inl p) \<Rightarrow> 5 * remaining p + 2
    | Inr (Inr (Inl (node, p))) \<Rightarrow> 5 * remaining p + 1
    | Inr (Inr (Inr p)) \<Rightarrow> 5 * remaining p)", goal_cases)
  case 1
  show ?case by auto
next
  case 2
  show ?case by auto
next
  case (3 p x2 x y)
  with parser_remaining_partial(3) [of p x y] show ?case by auto
next
  case (4 node p x x2)
  with consume_remaining [of p PLUS x2] show ?case by auto
next
  case (5 node p x x2 x2a xa y)
  with consume_remaining [of p PLUS x2] parser_remaining_partial(3) [of x2 xa y]
  show ?case by auto
next
  case 6
  show ?case by auto
next
  case (7 p x2 x y)
  with parser_remaining_partial(5) [of p x y] show ?case by auto
next
  case (8 node p x x2)
  with consume_remaining [of p MUL x2] show ?case by auto
next
  case (9 node p x x2 x2a xa y)
  with consume_remaining [of p MUL x2] parser_remaining_partial(5) [of x2 xa y]
  show ?case by auto
next
  case (10 p x2)
  with consume_remaining [of p LPAREN x2] show ?case by auto
qed


declare expr.simps [simp del] expr_loop.simps [simp del] term_rule.simps [simp del]
  term_loop.simps [simp del] factor.simps [simp del]


section \<open>Evaluation on concrete input\<close>

lemmas double_eval = round_to_double_def round_at_def pack_double_def ilog_ratio_def
  round_scaled_def round_half_even_def nearest_even_def numlen.simps
  double_of_scaled_def signed_def sum_at_def

lemmas lexer_eval = Lexer_of_def getNextToken_def number_def substr_def stod_def Token_of_def
  double_zero_def isspace_def isdigit_def digit_value_def digits_value_def
  skip_spaces.simps scan_number.simps Let_def

lemmas parser_eval = parse_tree_def parse_input_def parse_def Parser_of_def consume_def
  expr.simps expr_loop.simps term_rule.simps term_loop.simps factor.simps

lemmas show_eval = show_ratio_def show_at_def show_rounded_def show_digits_def show_nat.simps
  digit_char_def with_fraction_def strip_zeros_def show_exponent_def

lemma double_of_nat_values:
  "double_of_nat (Suc 0) = Finite False 4503599627370496 (- 52)"
  "double_of_nat 1 = Finite False 4503599627370496 (- 52)"
  "double_of_nat 2 = Finite False 4503599627370496 (- 51)"
  "double_of_nat 3 = Finite False 6755399441055744 (- 51)"
  "double_of_nat 4 = Finite False 4503599627370496 (- 50)"
  "double_of_nat 6 = Finite False 6755399441055744 (- 50)"
  "double_of_nat 14 = Finite False 7881299347898368 (- 49)"
  "double_of_nat 20 = Finite False 5629499534213120 (- 48)"
  "double_of_nat 24 = Finite False 6755399441055744 (- 48)"
  by (simp_all add: double_of_nat_def double_eval)

text \<open>
  The double model on known values: \<^verbatim>\<open>0.1 + 0.2\<close> is the double after \<^verbatim>\<open>0.3\<close> and prints
  as \<^verbatim>\<open>0.3\<close>; \<open>2^53 + 1\<close> is a tie and rounds to the even \<open>2^53\<close>; seven digits print in
  scientific notation; infinity times zero is not a number.
\<close>

lemma double_model_checks:
  "stod ''0.1'' = Inr (Finite False 7205759403792794 (- 56))"
  "stod ''0.2'' = Inr (Finite False 7205759403792794 (- 55))"
  "stod ''0.3'' = Inr (Finite False 5404319552844595 (- 54))"
  "dadd (Finite False 7205759403792794 (- 56)) (Finite False 7205759403792794 (- 55))
     = Finite False 5404319552844596 (- 54)"
  "show_double (Finite False 5404319552844596 (- 54)) = ''0.3''"
  "stod ''9007199254740993'' = Inr (Finite False 4503599627370496 1)"
  "stod ''1234567'' = Inr (Finite False 5302424889720832 (- 32))"
  "show_double (Finite False 5302424889720832 (- 32)) = ''1.23457e+06''"
  "dmul (Infinity False) (Finite False 0 (- 1074)) = NaN"
  by (simp_all add: lexer_eval double_eval show_eval cong: let_weak_cong)

section \<open>Precedence and associativity\<close>

text \<open>
  C1. Multiplication binds tighter than addition. For the line \<^verbatim>\<open>2 + 3 * 4\<close> the parser
  returns the tree \<open>BinaryOp(+, Number(2), BinaryOp(*, Number(3), Number(4)))\<close>; its
  \<^verbatim>\<open>evaluate\<close> returns the double 14 and its \<^verbatim>\<open>print_infix\<close> writes \<^verbatim>\<open>(2 + (3 * 4))\<close>. For
  the line \<^verbatim>\<open>(2 + 3) * 4\<close> the tree is \<open>BinaryOp(*, BinaryOp(+, Number(2), Number(3)),
  Number(4))\<close>, \<^verbatim>\<open>evaluate\<close> returns the double 20 and \<^verbatim>\<open>print_infix\<close> writes
  \<^verbatim>\<open>((2 + 3) * 4)\<close>.
\<close>

theorem mul_binds_tighter_than_plus:
  "(case parse_tree ''2 + 3 * 4'' of
      Inl e \<Rightarrow> None
    | Inr ast \<Rightarrow> Some (ast, evaluate ast, print_infix ast))
   = Some (BinaryOpNode PLUS (NumberNode (double_of_nat 2))
             (BinaryOpNode MUL (NumberNode (double_of_nat 3)) (NumberNode (double_of_nat 4))),
           Inr (double_of_nat 14), ''(2 + (3 * 4))'')
   \<and> (case parse_tree ''(2 + 3) * 4'' of
      Inl e \<Rightarrow> None
    | Inr ast \<Rightarrow> Some (ast, evaluate ast, print_infix ast))
   = Some (BinaryOpNode MUL
             (BinaryOpNode PLUS (NumberNode (double_of_nat 2)) (NumberNode (double_of_nat 3)))
             (NumberNode (double_of_nat 4)),
           Inr (double_of_nat 20), ''((2 + 3) * 4)'')
   \<and> valof (double_of_nat 2) = Some 2 \<and> valof (double_of_nat 3) = Some 3
   \<and> valof (double_of_nat 4) = Some 4
   \<and> valof (double_of_nat 14) = Some 14 \<and> valof (double_of_nat 20) = Some 20"
  by (simp add: parser_eval lexer_eval double_eval double_of_nat_values show_eval
      cong: let_weak_cong)

text \<open>
  C2. Repeated operators of one precedence group from the left. For the line
  \<^verbatim>\<open>1 + 2 + 3\<close> the parser returns the tree \<open>BinaryOp(+, BinaryOp(+, Number(1), Number(2)),
  Number(3))\<close>; its \<^verbatim>\<open>evaluate\<close> returns the double 6 and its \<^verbatim>\<open>print_infix\<close> writes
  \<^verbatim>\<open>((1 + 2) + 3)\<close>. The line \<^verbatim>\<open>2 * 3 * 4\<close> groups the same way, evaluates to 24 and is
  written \<^verbatim>\<open>((2 * 3) * 4)\<close>.
\<close>

theorem plus_groups_from_the_left:
  "(case parse_tree ''1 + 2 + 3'' of
      Inl e \<Rightarrow> None
    | Inr ast \<Rightarrow> Some (ast, evaluate ast, print_infix ast))
   = Some (BinaryOpNode PLUS
             (BinaryOpNode PLUS (NumberNode (double_of_nat 1)) (NumberNode (double_of_nat 2)))
             (NumberNode (double_of_nat 3)),
           Inr (double_of_nat 6), ''((1 + 2) + 3)'')
   \<and> (case parse_tree ''2 * 3 * 4'' of
      Inl e \<Rightarrow> None
    | Inr ast \<Rightarrow> Some (ast, evaluate ast, print_infix ast))
   = Some (BinaryOpNode MUL
             (BinaryOpNode MUL (NumberNode (double_of_nat 2)) (NumberNode (double_of_nat 3)))
             (NumberNode (double_of_nat 4)),
           Inr (double_of_nat 24), ''((2 * 3) * 4)'')
   \<and> valof (double_of_nat 1) = Some 1 \<and> valof (double_of_nat 2) = Some 2
   \<and> valof (double_of_nat 3) = Some 3 \<and> valof (double_of_nat 4) = Some 4
   \<and> valof (double_of_nat 6) = Some 6 \<and> valof (double_of_nat 24) = Some 24"
  by (simp add: parser_eval lexer_eval double_eval double_of_nat_values show_eval
      cong: let_weak_cong)

section \<open>Parse errors\<close>

text \<open>
  C3. Parsing the empty line fails with the error of \<^verbatim>\<open>factor\<close>: the parser's first token
  is \<^verbatim>\<open>END\<close>, \<^verbatim>\<open>factor\<close> rejects it with the exception \<^verbatim>\<open>Expected number or parentheses\<close>
  (the spec's \<open>ExpectedFactor\<close>), and that exception is the result of the whole parse; the
  empty line is not an expression of value zero.
\<close>

theorem empty_line_expected_factor:
  "Parser_of (Lexer_of [])
     = Inr \<lparr>lexer = \<lparr>input = [], pos = 0\<rparr>, current_token = Token_of END\<rparr>
   \<and> factor \<lparr>lexer = \<lparr>input = [], pos = 0\<rparr>, current_token = Token_of END\<rparr>
     = Inl (runtime_error ''Expected number or parentheses'')
   \<and> parse_input [] = Inl (runtime_error ''Expected number or parentheses'')"
  by (simp add: parser_eval lexer_eval cong: let_weak_cong)

text \<open>
  C4, as the code has it. Parsing the line \<^verbatim>\<open>(1 + 2\<close> fails in \<^verbatim>\<open>consume(RPAREN)\<close>: the
  parser consumes the parenthesis, \<^verbatim>\<open>expr\<close> returns the tree of \<^verbatim>\<open>1 + 2\<close> with \<^verbatim>\<open>END\<close> as
  the current token, and \<^verbatim>\<open>consume\<close>, called for \<^verbatim>\<open>RPAREN\<close>, throws the exception
  \<^verbatim>\<open>Unexpected token\<close> (the spec's \<open>UnexpectedToken\<close>), which is the result of the whole
  parse. The exception is that fixed message: it holds neither the expected nor the found
  tag.
\<close>

theorem unbalanced_paren_unexpected_token:
  "Parser_of (Lexer_of ''(1 + 2'')
     = Inr \<lparr>lexer = \<lparr>input = ''(1 + 2'', pos = 1\<rparr>, current_token = Token_of LPAREN\<rparr>
   \<and> consume \<lparr>lexer = \<lparr>input = ''(1 + 2'', pos = 1\<rparr>, current_token = Token_of LPAREN\<rparr> LPAREN
     = Inr \<lparr>lexer = \<lparr>input = ''(1 + 2'', pos = 2\<rparr>,
            current_token = \<lparr>type = NUMBER, value' = double_of_nat 1\<rparr>\<rparr>
   \<and> expr \<lparr>lexer = \<lparr>input = ''(1 + 2'', pos = 2\<rparr>,
            current_token = \<lparr>type = NUMBER, value' = double_of_nat 1\<rparr>\<rparr>
     = Inr (BinaryOpNode PLUS (NumberNode (double_of_nat 1)) (NumberNode (double_of_nat 2)),
            \<lparr>lexer = \<lparr>input = ''(1 + 2'', pos = 6\<rparr>, current_token = Token_of END\<rparr>)
   \<and> consume \<lparr>lexer = \<lparr>input = ''(1 + 2'', pos = 6\<rparr>, current_token = Token_of END\<rparr> RPAREN
     = Inl (runtime_error ''Unexpected token'')
   \<and> parse_input ''(1 + 2'' = Inl (runtime_error ''Unexpected token'')"
  by (simp add: parser_eval lexer_eval double_eval double_of_nat_values cong: let_weak_cong)

text \<open>
  C4, as the claim has it, fails: the exception does not record the tags. The failure of
  \<^verbatim>\<open>consume(RPAREN)\<close> on the token \<^verbatim>\<open>END\<close> (the line \<^verbatim>\<open>(1 + 2\<close>), its failure on a
  \<^verbatim>\<open>NUMBER\<close> token (the line \<^verbatim>\<open>(1 2\<close>) and the failure of \<^verbatim>\<open>consume(PLUS)\<close> are one and
  the same exception, and the two lines fail with equal results.
\<close>

theorem unexpected_token_without_tags:
  "consume \<lparr>lexer = \<lparr>input = ''(1 + 2'', pos = 6\<rparr>, current_token = Token_of END\<rparr> RPAREN
     = Inl (runtime_error ''Unexpected token'')
   \<and> consume \<lparr>lexer = \<lparr>input = ''(1 2'', pos = 4\<rparr>,
               current_token = \<lparr>type = NUMBER, value' = double_of_nat 2\<rparr>\<rparr> RPAREN
     = Inl (runtime_error ''Unexpected token'')
   \<and> consume \<lparr>lexer = \<lparr>input = ''(1 + 2'', pos = 6\<rparr>, current_token = Token_of END\<rparr> PLUS
     = Inl (runtime_error ''Unexpected token'')
   \<and> parse_input ''(1 + 2'' = parse_input ''(1 2''"
  by (simp add: parser_eval lexer_eval double_eval double_of_nat_values cong: let_weak_cong)

section \<open>The lexer at the end of the input and at an unsupported character\<close>

lemma skip_spaces_at_end: "length (input lx) \<le> pos lx \<Longrightarrow> skip_spaces lx = lx"
  by (subst skip_spaces.simps) simp

lemma getNextToken_at_end:
  "length (input lx) \<le> pos lx \<Longrightarrow> getNextToken lx = Inr (Token_of END, lx)"
  by (simp add: getNextToken_def skip_spaces_at_end)

text \<open>
  C8. The lexer is idempotent at the end of the input: in every state whose position is at
  or past the length of the input, \<^verbatim>\<open>getNextToken\<close> returns \<^verbatim>\<open>END\<close> and leaves the lexer as
  it is, and so does every later call: any number \<open>n\<close> of calls in a row return \<open>n\<close> tokens
  \<^verbatim>\<open>END\<close> and the same lexer.
\<close>

theorem lexer_idempotent_at_end:
  assumes "length (input lx) \<le> pos lx"
  shows "getNextToken lx = Inr (Token_of END, lx)
    \<and> getNextTokens n lx = Inr (replicate n (Token_of END), lx)"
proof -
  have "getNextTokens n lx = Inr (replicate n (Token_of END), lx)"
    by (induction n) (simp_all add: getNextToken_at_end [OF assms])
  with getNextToken_at_end [OF assms] show ?thesis by simp
qed

theorem lexer_idempotent_at_end_witness:
  "length (input \<lparr>input = ''1+2'', pos = 3\<rparr>) \<le> pos \<lparr>input = ''1+2'', pos = 3\<rparr>
   \<and> getNextToken \<lparr>input = ''1+2'', pos = 3\<rparr>
       = Inr (Token_of END, \<lparr>input = ''1+2'', pos = 3\<rparr>)
   \<and> getNextTokens 3 \<lparr>input = ''1+2'', pos = 3\<rparr>
       = Inr ([Token_of END, Token_of END, Token_of END], \<lparr>input = ''1+2'', pos = 3\<rparr>)"
proof -
  have h: "length (input \<lparr>input = ''1+2'', pos = 3\<rparr>) \<le> pos \<lparr>input = ''1+2'', pos = 3\<rparr>"
    by simp
  from lexer_idempotent_at_end [OF h, of 3] h show ?thesis
    by (simp add: numeral_3_eq_3)
qed

lemma skip_spaces_takeWhile:
  "skip_spaces lx = lx\<lparr>pos := pos lx + length (takeWhile isspace (drop (pos lx) (input lx)))\<rparr>"
proof (induction lx rule: skip_spaces.induct)
  case (1 lx)
  show ?case
  proof (cases "pos lx < length (input lx) \<and> isspace (input lx ! pos lx)")
    case True
    then have d: "drop (pos lx) (input lx) = input lx ! pos lx # drop (Suc (pos lx)) (input lx)"
      by (simp add: Cons_nth_drop_Suc)
    from True have "skip_spaces lx = skip_spaces (lx\<lparr>pos := pos lx + 1\<rparr>)"
      by (subst skip_spaces.simps) simp
    also from True have "\<dots> = lx\<lparr>pos := pos lx + 1
        + length (takeWhile isspace (drop (pos lx + 1) (input lx)))\<rparr>"
      using "1.IH" by simp
    finally show ?thesis using True by (simp add: d)
  next
    case False
    have "takeWhile isspace (drop (pos lx) (input lx)) = []"
    proof (cases "pos lx < length (input lx)")
      case True
      then have "drop (pos lx) (input lx) = input lx ! pos lx # drop (Suc (pos lx)) (input lx)"
        by (simp add: Cons_nth_drop_Suc)
      with True False show ?thesis by simp
    next
      case False
      then show ?thesis by simp
    qed
    moreover from False have "skip_spaces lx = lx"
      by (subst skip_spaces.simps) auto
    ultimately show ?thesis by simp
  qed
qed

text \<open>
  C5, as the code has it. In every state of the lexer where the rest of the input is some
  whitespace and then a character \<open>c\<close> that is neither whitespace nor a digit nor one of
  \<^verbatim>\<open>+\<close>, \<^verbatim>\<open>*\<close>, \<^verbatim>\<open>(\<close> and \<^verbatim>\<open>)\<close>, \<^verbatim>\<open>getNextToken\<close> throws the exception
  \<^verbatim>\<open>Invalid character in input\<close>. The exception is that fixed message: it holds neither
  the character nor its position.
\<close>

theorem invalid_character_error:
  assumes "drop (pos lx) (input lx) = ws @ c # rest"
    and "list_all isspace ws"
    and "\<not> isspace c" and "\<not> isdigit c" and "c \<notin> set ''+*()''"
  shows "getNextToken lx = Inl (runtime_error ''Invalid character in input'')"
proof -
  from assms(2) have ws: "\<And>x. x \<in> set ws \<Longrightarrow> isspace x"
    by (simp add: list_all_iff)
  from assms(1,3) have "takeWhile isspace (drop (pos lx) (input lx)) = ws"
    by (simp add: takeWhile_append2 [OF ws])
  then have s: "skip_spaces lx = lx\<lparr>pos := pos lx + length ws\<rparr>"
    by (simp add: skip_spaces_takeWhile)
  from assms(1) have len: "length (input lx) - pos lx = length ws + Suc (length rest)"
    using length_drop [of "pos lx" "input lx"] by simp
  then have in_range: "pos lx + length ws < length (input lx)" by simp
  then have "input lx ! (pos lx + length ws) = drop (pos lx) (input lx) ! length ws"
    by simp
  with assms(1) have c: "input lx ! (pos lx + length ws) = c" by simp
  from in_range c assms(4,5) show ?thesis
    by (simp add: getNextToken_def Let_def s)
qed

theorem invalid_character_error_witness:
  "drop (pos \<lparr>input = ''3 - 2'', pos = 1\<rparr>) (input \<lparr>input = ''3 - 2'', pos = 1\<rparr>)
     = '' '' @ CHR ''-'' # '' 2''
   \<and> list_all isspace '' ''
   \<and> \<not> isspace CHR ''-'' \<and> \<not> isdigit CHR ''-'' \<and> CHR ''-'' \<notin> set ''+*()''
   \<and> getNextToken \<lparr>input = ''3 - 2'', pos = 1\<rparr> = Inl (runtime_error ''Invalid character in input'')"
proof -
  let ?lx = "\<lparr>input = ''3 - 2'', pos = 1\<rparr>"
  have h1: "drop (pos ?lx) (input ?lx) = '' '' @ CHR ''-'' # '' 2''" by simp
  have h2: "list_all isspace '' ''" by (simp add: isspace_def)
  have h3: "\<not> isspace CHR ''-''" by (simp add: isspace_def)
  have h4: "\<not> isdigit CHR ''-''" by (simp add: isdigit_def)
  have h5: "CHR ''-'' \<notin> set ''+*()''" by simp
  from invalid_character_error [OF h1 h2 h3 h4 h5] h1 h2 h3 h4 h5 show ?thesis by blast
qed

text \<open>
  C5, as the claim has it, fails: the exception carries neither the character nor the
  position. The character \<^verbatim>\<open>-\<close> at position 0 and the character \<^verbatim>\<open>/\<close> at position 2 make
  \<^verbatim>\<open>getNextToken\<close> fail with one and the same exception.
\<close>

theorem invalid_character_error_without_payload:
  "getNextToken (Lexer_of ''-'') = Inl (runtime_error ''Invalid character in input'')
   \<and> getNextToken (Lexer_of ''  /'') = Inl (runtime_error ''Invalid character in input'')
   \<and> getNextToken (Lexer_of ''-'') = getNextToken (Lexer_of ''  /'')"
  by (simp add: lexer_eval cong: let_weak_cong)

section \<open>Numeric literals\<close>

lemma scan_number_digit_run: "scan_number lx = lx\<lparr>pos := pos lx + length (digit_run lx)\<rparr>"
proof (induction lx rule: scan_number.induct)
  case (1 lx)
  let ?P = "\<lambda>c. isdigit c \<or> c = CHR ''.''"
  show ?case
  proof (cases "pos lx < length (input lx) \<and> ?P (input lx ! pos lx)")
    case True
    then have "drop (pos lx) (input lx) = input lx ! pos lx # drop (Suc (pos lx)) (input lx)"
      by (simp add: Cons_nth_drop_Suc)
    with True have run: "digit_run lx = input lx ! pos lx # digit_run (lx\<lparr>pos := pos lx + 1\<rparr>)"
      by (simp add: digit_run_def)
    from True have "scan_number lx = scan_number (lx\<lparr>pos := pos lx + 1\<rparr>)"
      by (subst scan_number.simps) simp
    also from True have "\<dots> = lx\<lparr>pos := pos lx + 1 + length (digit_run (lx\<lparr>pos := pos lx + 1\<rparr>))\<rparr>"
      using "1.IH" by simp
    finally show ?thesis by (simp add: run)
  next
    case False
    have "digit_run lx = []"
    proof (cases "pos lx < length (input lx)")
      case True
      then have "drop (pos lx) (input lx) = input lx ! pos lx # drop (Suc (pos lx)) (input lx)"
        by (simp add: Cons_nth_drop_Suc)
      with True False show ?thesis by (simp add: digit_run_def)
    next
      case False
      then show ?thesis by (simp add: digit_run_def)
    qed
    moreover from False have "scan_number lx = lx"
      by (subst scan_number.simps) auto
    ultimately show ?thesis by simp
  qed
qed

lemma substr_digit_run:
  assumes "pos lx \<le> length (input lx)"
  shows "substr (input lx) (pos lx) (length (digit_run lx)) = Inr (digit_run lx)"
  using assms takeWhile_eq_take [of "\<lambda>c. isdigit c \<or> c = CHR ''.''" "drop (pos lx) (input lx)"]
  by (simp add: substr_def digit_run_def)

lemma number_digit_run:
  assumes "pos lx \<le> length (input lx)"
  shows "number lx =
    (case stod (digit_run lx) of
       Inl e \<Rightarrow> Inl e
     | Inr v \<Rightarrow> Inr (\<lparr>type = NUMBER, value' = v\<rparr>, lx\<lparr>pos := pos lx + length (digit_run lx)\<rparr>))"
  using substr_digit_run [OF assms]
  by (simp add: number_def Let_def scan_number_digit_run)

lemma not_isdigit_point: "\<not> isdigit CHR ''.''"
  by (simp add: isdigit_def)

lemma literal_prefix_parts:
  "takeWhile isdigit (literal_prefix s) = takeWhile isdigit s"
  "(case dropWhile isdigit (literal_prefix s) of
      [] \<Rightarrow> []
    | c # r \<Rightarrow> if c = CHR ''.'' then takeWhile isdigit r else [])
   = (case dropWhile isdigit s of
        [] \<Rightarrow> []
      | c # r \<Rightarrow> if c = CHR ''.'' then takeWhile isdigit r else [])"
proof -
  define ip where "ip = takeWhile isdigit s"
  define rest where "rest = dropWhile isdigit s"
  have digits: "\<And>x. x \<in> set ip \<Longrightarrow> isdigit x"
    unfolding ip_def by (auto dest: set_takeWhileD)
  have tw: "takeWhile isdigit ip = ip"
    using digits by (simp add: takeWhile_eq_all_conv)
  have dw: "dropWhile isdigit ip = []"
    using digits by simp
  have lp: "literal_prefix s =
      ip @ (case rest of [] \<Rightarrow> [] | c # r \<Rightarrow> if c = CHR ''.'' then c # takeWhile isdigit r else [])"
    by (simp add: literal_prefix_def ip_def rest_def)
  have "takeWhile isdigit (literal_prefix s) = ip"
    unfolding lp
    by (cases rest) (simp_all add: takeWhile_append2 [OF digits] not_isdigit_point tw)
  then show "takeWhile isdigit (literal_prefix s) = takeWhile isdigit s"
    by (simp add: ip_def)
  have "(case dropWhile isdigit (literal_prefix s) of
      [] \<Rightarrow> []
    | c # r \<Rightarrow> if c = CHR ''.'' then takeWhile isdigit r else [])
   = (case rest of
        [] \<Rightarrow> []
      | c # r \<Rightarrow> if c = CHR ''.'' then takeWhile isdigit r else [])"
    unfolding lp
    by (cases rest) (simp_all add: dropWhile_append2 [OF digits] not_isdigit_point dw)
  then show "(case dropWhile isdigit (literal_prefix s) of
      [] \<Rightarrow> []
    | c # r \<Rightarrow> if c = CHR ''.'' then takeWhile isdigit r else [])
   = (case dropWhile isdigit s of
        [] \<Rightarrow> []
      | c # r \<Rightarrow> if c = CHR ''.'' then takeWhile isdigit r else [])"
    by (simp add: rest_def)
qed

lemma stod_literal_prefix: "stod (literal_prefix s) = stod s"
  by (simp add: stod_def literal_prefix_parts)

lemma stod_leading_digit:
  assumes "s = c # r" and "isdigit c"
  shows "stod s \<noteq> Inl invalid_argument"
  using assms by (auto simp: stod_def Let_def split: double.splits)

text \<open>
  What \<^verbatim>\<open>number\<close> does with a run of digits and points: only the longest prefix of the
  run that is a well-formed literal is converted, the position moves past the whole run,
  and \<^verbatim>\<open>std::stod\<close> finds something to convert, since the run starts with a digit.
\<close>

lemma number_converts_literal_prefix:
  assumes "pos lx < length (input lx)" and "isdigit (input lx ! pos lx)"
  shows "number lx =
      (case stod (literal_prefix (digit_run lx)) of
         Inl e \<Rightarrow> Inl e
       | Inr v \<Rightarrow> Inr (\<lparr>type = NUMBER, value' = v\<rparr>, lx\<lparr>pos := pos lx + length (digit_run lx)\<rparr>))
    \<and> stod (literal_prefix (digit_run lx)) \<noteq> Inl invalid_argument"
proof -
  from assms(1) have "drop (pos lx) (input lx) = input lx ! pos lx # drop (Suc (pos lx)) (input lx)"
    by (simp add: Cons_nth_drop_Suc)
  with assms(2) obtain r where "digit_run lx = input lx ! pos lx # r"
    by (simp add: digit_run_def)
  from stod_leading_digit [OF this assms(2)]
  have "stod (literal_prefix (digit_run lx)) \<noteq> Inl invalid_argument"
    by (simp add: stod_literal_prefix)
  moreover from assms(1) have "pos lx \<le> length (input lx)" by simp
  from number_digit_run [OF this] have "number lx =
      (case stod (literal_prefix (digit_run lx)) of
         Inl e \<Rightarrow> Inl e
       | Inr v \<Rightarrow> Inr (\<lparr>type = NUMBER, value' = v\<rparr>, lx\<lparr>pos := pos lx + length (digit_run lx)\<rparr>))"
    by (simp add: stod_literal_prefix)
  ultimately show ?thesis by simp
qed

text \<open>
  C6 fails on the code. For the line \<^verbatim>\<open>1.2.3\<close> the lexer scans the whole run, its position
  ends at 5, and it returns a \<^verbatim>\<open>NUMBER\<close> token with no error; the token's value is the
  double of the literal \<^verbatim>\<open>1.2\<close>, a part of the run: \<^verbatim>\<open>std::stod\<close> returns for \<^verbatim>\<open>1.2.3\<close> what
  it returns for \<^verbatim>\<open>1.2\<close>, and \<^verbatim>\<open>number\<close> does not ask it how much it has read. The line
  \<^verbatim>\<open>1.2.3 + 1\<close> parses to the sum of the doubles of \<^verbatim>\<open>1.2\<close> and \<^verbatim>\<open>1\<close>.
\<close>

theorem malformed_literal_partly_converted:
  "digit_run (Lexer_of ''1.2.3'') = ''1.2.3''
   \<and> literal_prefix ''1.2.3'' = ''1.2''
   \<and> getNextToken (Lexer_of ''1.2.3'')
     = Inr (\<lparr>type = NUMBER, value' = Finite False 5404319552844595 (- 52)\<rparr>,
            \<lparr>input = ''1.2.3'', pos = 5\<rparr>)
   \<and> stod ''1.2.3'' = Inr (Finite False 5404319552844595 (- 52))
   \<and> stod ''1.2'' = Inr (Finite False 5404319552844595 (- 52))
   \<and> parse_tree ''1.2.3 + 1''
     = Inr (BinaryOpNode PLUS (NumberNode (Finite False 5404319552844595 (- 52)))
              (NumberNode (double_of_nat 1)))"
  by (simp add: digit_run_def literal_prefix_def parser_eval lexer_eval double_eval
      double_of_nat_values cong: let_weak_cong)

section \<open>Operators of parsed trees\<close>

lemma plus_mul_only_evaluate: "plus_mul_only t \<Longrightarrow> \<exists>v. evaluate t = Inr v"
  by (induction t) auto

lemma parser_plus_mul_only:
  "expr p = Inr (n, p') \<Longrightarrow> plus_mul_only n"
  "plus_mul_only node \<Longrightarrow> expr_loop node q = Inr (n, q') \<Longrightarrow> plus_mul_only n"
  "term_rule r = Inr (n, r') \<Longrightarrow> plus_mul_only n"
  "plus_mul_only node' \<Longrightarrow> term_loop node' u = Inr (n, u') \<Longrightarrow> plus_mul_only n"
  "factor v = Inr (n, v') \<Longrightarrow> plus_mul_only n"
proof (induction p and node q and r and node' u and v
    arbitrary: n p' and n q' and n r' and n u' and n v'
    rule: expr_expr_loop_term_rule_term_loop_factor.induct)
  case (1 p)
  from "1.prems" obtain node p1
    where t: "term_rule p = Inr (node, p1)" and l: "expr_loop node p1 = Inr (n, p')"
    by (auto simp: expr.simps split: sum.splits)
  from "1.IH"(2) [OF t refl "1.IH"(1) [OF t] l] show ?case .
next
  case (2 node p)
  show ?case
  proof (cases "type (current_token p) = PLUS")
    case True
    with "2.prems" obtain p1 right p2
      where c: "consume p PLUS = Inr p1" and t: "term_rule p1 = Inr (right, p2)"
        and l: "expr_loop (BinaryOpNode (type (current_token p)) node right) p2 = Inr (n, q')"
      by (subst (asm) expr_loop.simps) (auto simp: Let_def split: sum.splits)
    from "2.IH"(1) [OF True refl c t] "2.prems"(1) True
    have "plus_mul_only (BinaryOpNode (type (current_token p)) node right)" by simp
    from "2.IH"(2) [OF True refl c t refl this l] show ?thesis .
  next
    case False
    with "2.prems" show ?thesis by (subst (asm) expr_loop.simps) simp
  qed
next
  case (3 p)
  from "3.prems" obtain node p1
    where t: "factor p = Inr (node, p1)" and l: "term_loop node p1 = Inr (n, r')"
    by (auto simp: term_rule.simps split: sum.splits)
  from "3.IH"(2) [OF t refl "3.IH"(1) [OF t] l] show ?case .
next
  case (4 node p)
  show ?case
  proof (cases "type (current_token p) = MUL")
    case True
    with "4.prems" obtain p1 right p2
      where c: "consume p MUL = Inr p1" and t: "factor p1 = Inr (right, p2)"
        and l: "term_loop (BinaryOpNode (type (current_token p)) node right) p2 = Inr (n, u')"
      by (subst (asm) term_loop.simps) (auto simp: Let_def split: sum.splits)
    from "4.IH"(1) [OF True refl c t] "4.prems"(1) True
    have "plus_mul_only (BinaryOpNode (type (current_token p)) node right)" by simp
    from "4.IH"(2) [OF True refl c t refl this l] show ?thesis .
  next
    case False
    with "4.prems" show ?thesis by (subst (asm) term_loop.simps) simp
  qed
next
  case (5 p)
  show ?case
  proof (cases "type (current_token p) = NUMBER")
    case True
    with "5.prems" show ?thesis
      by (auto simp: factor.simps Let_def split: sum.splits)
  next
    case False
    with "5.prems" obtain p1 p2
      where lp: "type (current_token p) = LPAREN" and c: "consume p LPAREN = Inr p1"
        and e: "expr p1 = Inr (n, p2)"
      by (auto simp: factor.simps split: sum.splits if_splits)
    from "5.IH" [OF False lp c e] show ?thesis .
  qed
qed

text \<open>
  C10. Every tree \<^verbatim>\<open>Parser::parse\<close> returns, from whatever state of the parser, has only
  \<^verbatim>\<open>PLUS\<close> and \<^verbatim>\<open>MUL\<close> as the operators of its binary nodes, so \<^verbatim>\<open>evaluate\<close> returns a
  value on it: the branch that throws \<^verbatim>\<open>Unknown operator\<close> is not reached.
\<close>

theorem parsed_tree_plus_mul_only:
  assumes "parse p = Inr (ast, p')"
  shows "plus_mul_only ast \<and> (\<exists>v. evaluate ast = Inr v)"
proof -
  from assms have "plus_mul_only ast" by (simp add: parse_def parser_plus_mul_only(1))
  with plus_mul_only_evaluate show ?thesis by blast
qed

theorem parsed_tree_plus_mul_only_witness:
  "parse \<lparr>lexer = \<lparr>input = ''1+2*3'', pos = 1\<rparr>,
          current_token = \<lparr>type = NUMBER, value' = double_of_nat 1\<rparr>\<rparr>
     = Inr (BinaryOpNode PLUS (NumberNode (double_of_nat 1))
              (BinaryOpNode MUL (NumberNode (double_of_nat 2)) (NumberNode (double_of_nat 3))),
            \<lparr>lexer = \<lparr>input = ''1+2*3'', pos = 5\<rparr>, current_token = Token_of END\<rparr>)
   \<and> plus_mul_only (BinaryOpNode PLUS (NumberNode (double_of_nat 1))
              (BinaryOpNode MUL (NumberNode (double_of_nat 2)) (NumberNode (double_of_nat 3))))
   \<and> (\<exists>v. evaluate (BinaryOpNode PLUS (NumberNode (double_of_nat 1))
              (BinaryOpNode MUL (NumberNode (double_of_nat 2)) (NumberNode (double_of_nat 3))))
            = Inr v)"
proof -
  have h: "parse \<lparr>lexer = \<lparr>input = ''1+2*3'', pos = 1\<rparr>,
          current_token = \<lparr>type = NUMBER, value' = double_of_nat 1\<rparr>\<rparr>
     = Inr (BinaryOpNode PLUS (NumberNode (double_of_nat 1))
              (BinaryOpNode MUL (NumberNode (double_of_nat 2)) (NumberNode (double_of_nat 3))),
            \<lparr>lexer = \<lparr>input = ''1+2*3'', pos = 5\<rparr>, current_token = Token_of END\<rparr>)"
    by (simp add: parser_eval lexer_eval double_eval double_of_nat_values cong: let_weak_cong)
  from parsed_tree_plus_mul_only [OF h] h show ?thesis by blast
qed

section \<open>Text after an expression\<close>

text \<open>
  A token the lexer returns before the end of \<open>e\<close> is the token it returns at the same
  position of \<open>e @ t\<close>; where it returns \<^verbatim>\<open>END\<close> on \<open>e\<close>, it returns on \<open>e @ t\<close> what it returns
  from the end of \<open>e\<close>.
\<close>

lemma takeWhile_append_stop:
  "takeWhile P t = [] \<Longrightarrow> takeWhile P (xs @ t) = takeWhile P xs"
  by (induction xs) simp_all

lemma getNextToken_skip_cong:
  "skip_spaces lx = skip_spaces ly \<Longrightarrow> getNextToken lx = getNextToken ly"
  by (simp add: getNextToken_def)

lemma skip_spaces_explicit:
  "skip_spaces \<lparr>input = s, pos = k\<rparr>
     = \<lparr>input = s, pos = k + length (takeWhile isspace (drop k s))\<rparr>"
  by (simp add: skip_spaces_takeWhile)

lemma number_explicit:
  assumes "k \<le> length s"
  shows "number \<lparr>input = s, pos = k\<rparr> =
    (case stod (takeWhile (\<lambda>c. isdigit c \<or> c = CHR ''.'') (drop k s)) of
       Inl e \<Rightarrow> Inl e
     | Inr v \<Rightarrow> Inr (\<lparr>type = NUMBER, value' = v\<rparr>,
         \<lparr>input = s, pos = k + length (takeWhile (\<lambda>c. isdigit c \<or> c = CHR ''.'') (drop k s))\<rparr>))"
  using number_digit_run [of "\<lparr>input = s, pos = k\<rparr>"] assms
  by (simp add: digit_run_def split: sum.splits)

lemma digit_run_append:
  assumes "takeWhile (\<lambda>c. isdigit c \<or> c = CHR ''.'') t = []
      \<or> takeWhile (\<lambda>c. isdigit c \<or> c = CHR ''.'') (rev e) = []"
    and "k < length e"
  shows "takeWhile (\<lambda>c. isdigit c \<or> c = CHR ''.'') (drop k e @ t)
     = takeWhile (\<lambda>c. isdigit c \<or> c = CHR ''.'') (drop k e)"
proof (cases "takeWhile (\<lambda>c. isdigit c \<or> c = CHR ''.'') t = []")
  case True
  then show ?thesis by (rule takeWhile_append_stop)
next
  case False
  with assms(1) have r: "takeWhile (\<lambda>c. isdigit c \<or> c = CHR ''.'') (rev e) = []" by simp
  from assms(2) have ne: "e \<noteq> []" by auto
  then have "rev e = last e # rev (butlast e)"
    by (metis append_butlast_last_id rev.simps(2) rev_append rev_rev_ident append_Nil rev.simps(1))
  with r have "\<not> (isdigit (last e) \<or> last e = CHR ''.'')"
    by (auto split: if_splits)
  moreover from assms(2) have "last e \<in> set (drop k e)"
    by (metis drop_eq_Nil last_drop last_in_set not_less)
  ultimately show ?thesis by (rule_tac takeWhile_append1) auto
qed

lemma getNextToken_prefix:
  assumes k: "k \<le> length e"
    and bd: "takeWhile (\<lambda>c. isdigit c \<or> c = CHR ''.'') t = []
      \<or> takeWhile (\<lambda>c. isdigit c \<or> c = CHR ''.'') (rev e) = []"
    and tok: "getNextToken \<lparr>input = e, pos = k\<rparr> = Inr (tk, lp')"
  shows "if type tk = END
    then getNextToken \<lparr>input = e @ t, pos = k\<rparr> = getNextToken \<lparr>input = e @ t, pos = length e\<rparr>
    else input lp' = e \<and> pos lp' \<le> length e
      \<and> getNextToken \<lparr>input = e @ t, pos = k\<rparr> = Inr (tk, \<lparr>input = e @ t, pos = pos lp'\<rparr>)"
proof (cases "takeWhile isspace (drop k e) = drop k e")
  case True
  then have all: "\<And>x. x \<in> set (drop k e) \<Longrightarrow> isspace x"
    by (metis set_takeWhileD)
  have "length (takeWhile isspace (drop k e)) = length e - k"
    by (simp only: True length_drop)
  with k have wl: "k + length (takeWhile isspace (drop k e)) = length e" by simp
  have "skip_spaces \<lparr>input = e, pos = k\<rparr> = \<lparr>input = e, pos = length e\<rparr>"
    by (simp only: skip_spaces_explicit wl)
  with tok have "type tk = END"
    by (auto simp: getNextToken_def Token_of_def)
  moreover from k have "skip_spaces \<lparr>input = e @ t, pos = k\<rparr>
      = skip_spaces \<lparr>input = e @ t, pos = length e\<rparr>"
    using wl by (simp add: skip_spaces_explicit takeWhile_append2 [OF all] True)
  then have "getNextToken \<lparr>input = e @ t, pos = k\<rparr>
      = getNextToken \<lparr>input = e @ t, pos = length e\<rparr>"
    by (rule getNextToken_skip_cong)
  ultimately show ?thesis by simp
next
  case False
  define ws where "ws = takeWhile isspace (drop k e)"
  define rest where "rest = dropWhile isspace (drop k e)"
  from False have "rest \<noteq> []"
    unfolding rest_def by (metis takeWhile_dropWhile_id append_Nil2)
  then obtain c r where rest: "rest = c # r" by (cases rest) auto
  then have c: "\<not> isspace c"
    unfolding rest_def by (metis hd_dropWhile list.sel(1) list.distinct(1))
  have split: "drop k e = ws @ c # r"
    unfolding ws_def using rest rest_def by (metis takeWhile_dropWhile_id)
  have ws: "\<And>x. x \<in> set ws \<Longrightarrow> isspace x"
    unfolding ws_def by (metis set_takeWhileD)
  define k' where "k' = k + length ws"
  from split have len: "length e - k = length ws + Suc (length r)"
    using length_drop [of k e] by simp
  then have k'_lt: "k' < length e" unfolding k'_def by simp
  have d': "drop k' e = c # r"
    unfolding k'_def using split by (metis add.commute append_eq_conv_conj drop_drop)
  then have at: "e ! k' = c"
    using k'_lt by (metis nth_via_drop)
  from k'_lt have at': "(e @ t) ! k' = c" by (simp add: nth_append at)
  have sp: "skip_spaces \<lparr>input = e, pos = k\<rparr> = \<lparr>input = e, pos = k'\<rparr>"
    by (simp add: skip_spaces_explicit k'_def ws_def)
  from k have "drop k (e @ t) = ws @ c # r @ t" by (simp add: split)
  then have "takeWhile isspace (drop k (e @ t)) = ws"
    using c by (simp add: takeWhile_append2 [OF ws])
  then have sq: "skip_spaces \<lparr>input = e @ t, pos = k\<rparr> = \<lparr>input = e @ t, pos = k'\<rparr>"
    by (simp add: skip_spaces_explicit k'_def)
  from k'_lt have dq: "drop k' (e @ t) = drop k' e @ t" by simp
  have run: "takeWhile (\<lambda>c. isdigit c \<or> c = CHR ''.'') (drop k' e @ t)
     = takeWhile (\<lambda>c. isdigit c \<or> c = CHR ''.'') (drop k' e)"
    using bd k'_lt by (rule digit_run_append)
  have runlen: "k' + length (takeWhile (\<lambda>c. isdigit c \<or> c = CHR ''.'') (drop k' e)) \<le> length e"
    using length_takeWhile_le [of "\<lambda>c. isdigit c \<or> c = CHR ''.''" "drop k' e"] k'_lt by simp
  from k'_lt have le1: "k' \<le> length e" and le2: "k' \<le> length (e @ t)" by simp_all
  from k'_lt have nq: "\<not> length e + length t \<le> k'" and np: "\<not> length e \<le> k'" by simp_all
  show ?thesis
  proof (cases "isdigit c")
    case True
    let ?run = "takeWhile (\<lambda>c. isdigit c \<or> c = CHR ''.'') (drop k' e)"
    from tok True have "number \<lparr>input = e, pos = k'\<rparr> = Inr (tk, lp')"
      by (simp add: getNextToken_def Let_def sp at np)
    then obtain v where v: "stod ?run = Inr v" and tk: "tk = \<lparr>type = NUMBER, value' = v\<rparr>"
      and lp': "lp' = \<lparr>input = e, pos = k' + length ?run\<rparr>"
      by (auto simp: number_explicit [OF le1] split: sum.splits)
    from True have "getNextToken \<lparr>input = e @ t, pos = k\<rparr> = number \<lparr>input = e @ t, pos = k'\<rparr>"
      by (simp add: getNextToken_def Let_def sq at' nq)
    also have "\<dots> = Inr (tk, \<lparr>input = e @ t, pos = k' + length ?run\<rparr>)"
      unfolding number_explicit [OF le2] dq run v tk by simp
    finally show ?thesis using tk lp' runlen by simp
  next
    case False
    from tok False have lp': "lp' = \<lparr>input = e, pos = k' + 1\<rparr>"
      and ty: "type tk \<noteq> END"
      and tk: "tk = (if c = CHR ''+'' then Token_of PLUS else if c = CHR ''*'' then Token_of MUL
           else if c = CHR ''('' then Token_of LPAREN else Token_of RPAREN)"
      and sup: "c \<in> set ''+*()''"
      by (auto simp: getNextToken_def Let_def sp at np Token_of_def split: if_splits)
    from False sup have "getNextToken \<lparr>input = e @ t, pos = k\<rparr>
        = Inr (tk, \<lparr>input = e @ t, pos = k' + 1\<rparr>)"
      by (auto simp: getNextToken_def Let_def sq at' nq tk)
    with lp' ty k'_lt show ?thesis by simp
  qed
qed

text \<open>
  The parser on \<open>e @ t\<close> follows the parser on \<open>e\<close> step by step, as long as that one
  succeeds.
\<close>

lemma apart_takeWhile:
  "apart e t \<Longrightarrow>
     takeWhile (\<lambda>c. isdigit c \<or> c = CHR ''.'') t = []
     \<or> takeWhile (\<lambda>c. isdigit c \<or> c = CHR ''.'') (rev e) = []"
  unfolding apart_def takeWhile_eq_Nil_iff by (auto simp: hd_rev)

lemma consume_in_step:
  assumes ap: "apart e t"
    and nx: "getNextToken \<lparr>input = e @ t, pos = length e\<rparr> = Inr (tok, lx)"
    and r: "in_step e t \<lparr>lexer = lx, current_token = tok\<rparr> p q"
    and x: "x \<noteq> END"
    and c: "consume p x = Inr p'"
  shows "\<exists>q'. consume q x = Inr q' \<and> in_step e t \<lparr>lexer = lx, current_token = tok\<rparr> p' q'"
proof -
  from c obtain tk lp' where ty: "type (current_token p) = x"
    and g: "getNextToken (lexer p) = Inr (tk, lp')"
    and p': "p' = \<lparr>lexer = lp', current_token = tk\<rparr>"
    by (auto simp: consume_def split: if_splits sum.splits)
  from r ty x have inp: "input (lexer p) = e" and k: "pos (lexer p) \<le> length e"
    and q: "q = \<lparr>lexer = \<lparr>input = e @ t, pos = pos (lexer p)\<rparr>,
                 current_token = current_token p\<rparr>"
    by (auto simp: in_step_def)
  from inp have "lexer p = \<lparr>input = e, pos = pos (lexer p)\<rparr>" by simp
  with g have g': "getNextToken \<lparr>input = e, pos = pos (lexer p)\<rparr> = Inr (tk, lp')" by simp
  note pre = getNextToken_prefix [OF k apart_takeWhile [OF ap] g']
  from getNextToken_input [OF g] inp have i': "input lp' = e" by simp
  show ?thesis
  proof (cases "type tk = END")
    case True
    with pre nx have "getNextToken \<lparr>input = e @ t, pos = pos (lexer p)\<rparr> = Inr (tok, lx)"
      by simp
    then have "consume q x = Inr \<lparr>lexer = lx, current_token = tok\<rparr>"
      by (simp add: consume_def q ty)
    moreover from True i' have "in_step e t \<lparr>lexer = lx, current_token = tok\<rparr> p'
        \<lparr>lexer = lx, current_token = tok\<rparr>"
      by (simp add: in_step_def p')
    ultimately show ?thesis by blast
  next
    case False
    with pre have le: "pos lp' \<le> length e"
      and "getNextToken \<lparr>input = e @ t, pos = pos (lexer p)\<rparr>
        = Inr (tk, \<lparr>input = e @ t, pos = pos lp'\<rparr>)"
      by simp_all
    then have "consume q x = Inr \<lparr>lexer = \<lparr>input = e @ t, pos = pos lp'\<rparr>, current_token = tk\<rparr>"
      by (simp add: consume_def q ty)
    moreover from False i' le have "in_step e t \<lparr>lexer = lx, current_token = tok\<rparr> p'
        \<lparr>lexer = \<lparr>input = e @ t, pos = pos lp'\<rparr>, current_token = tk\<rparr>"
      by (simp add: in_step_def p')
    ultimately show ?thesis by blast
  qed
qed

lemma in_step_type:
  assumes "in_step e t \<lparr>lexer = lx, current_token = tok\<rparr> p q"
    and "type tok \<noteq> PLUS" and "type tok \<noteq> MUL"
  shows "(type (current_token q) = PLUS) = (type (current_token p) = PLUS)"
    and "(type (current_token q) = MUL) = (type (current_token p) = MUL)"
    and "type (current_token p) \<noteq> END \<Longrightarrow> current_token q = current_token p"
  using assms by (auto simp: in_step_def split: if_splits)

lemma parser_in_step:
  assumes ap: "apart e t"
    and nx: "getNextToken \<lparr>input = e @ t, pos = length e\<rparr> = Inr (tok, lx)"
    and np: "type tok \<noteq> PLUS" and nm: "type tok \<noteq> MUL"
  shows "expr p = Inr (n, p') \<Longrightarrow> in_step e t \<lparr>lexer = lx, current_token = tok\<rparr> p q
      \<Longrightarrow> \<exists>q'. expr q = Inr (n, q') \<and> in_step e t \<lparr>lexer = lx, current_token = tok\<rparr> p' q'"
    and "expr_loop node p2 = Inr (n, p') \<Longrightarrow> in_step e t \<lparr>lexer = lx, current_token = tok\<rparr> p2 q
      \<Longrightarrow> \<exists>q'. expr_loop node q = Inr (n, q')
            \<and> in_step e t \<lparr>lexer = lx, current_token = tok\<rparr> p' q'"
    and "term_rule p3 = Inr (n, p') \<Longrightarrow> in_step e t \<lparr>lexer = lx, current_token = tok\<rparr> p3 q
      \<Longrightarrow> \<exists>q'. term_rule q = Inr (n, q')
            \<and> in_step e t \<lparr>lexer = lx, current_token = tok\<rparr> p' q'"
    and "term_loop node' p4 = Inr (n, p') \<Longrightarrow> in_step e t \<lparr>lexer = lx, current_token = tok\<rparr> p4 q
      \<Longrightarrow> \<exists>q'. term_loop node' q = Inr (n, q')
            \<and> in_step e t \<lparr>lexer = lx, current_token = tok\<rparr> p' q'"
    and "factor p5 = Inr (n, p') \<Longrightarrow> in_step e t \<lparr>lexer = lx, current_token = tok\<rparr> p5 q
      \<Longrightarrow> \<exists>q'. factor q = Inr (n, q') \<and> in_step e t \<lparr>lexer = lx, current_token = tok\<rparr> p' q'"
proof (induction p and node p2 and p3 and node' p4 and p5
    arbitrary: n p' q and n p' q and n p' q and n p' q and n p' q
    rule: expr_expr_loop_term_rule_term_loop_factor.induct)
  case (1 p)
  from "1.prems"(1) obtain node p1
    where t: "term_rule p = Inr (node, p1)" and l: "expr_loop node p1 = Inr (n, p')"
    by (auto simp: expr.simps split: sum.splits)
  from "1.IH"(1) [OF t "1.prems"(2)] obtain q1
    where t': "term_rule q = Inr (node, q1)"
      and r1: "in_step e t \<lparr>lexer = lx, current_token = tok\<rparr> p1 q1" by blast
  from "1.IH"(2) [OF t refl l r1] obtain q'
    where "expr_loop node q1 = Inr (n, q')"
      and "in_step e t \<lparr>lexer = lx, current_token = tok\<rparr> p' q'" by blast
  with t' show ?case by (auto simp: expr.simps)
next
  case (2 node p)
  note ty = in_step_type [OF "2.prems"(2) np nm]
  show ?case
  proof (cases "type (current_token p) = PLUS")
    case True
    with "2.prems"(1) obtain p1 right p2
      where c: "consume p PLUS = Inr p1" and t: "term_rule p1 = Inr (right, p2)"
        and l: "expr_loop (BinaryOpNode (type (current_token p)) node right) p2 = Inr (n, p')"
      by (subst (asm) expr_loop.simps) (auto simp: Let_def split: sum.splits)
    from True have cq: "current_token q = current_token p" by (simp add: ty(3))
    from consume_in_step [OF ap nx "2.prems"(2) _ c] obtain q1
      where c': "consume q PLUS = Inr q1"
        and r1: "in_step e t \<lparr>lexer = lx, current_token = tok\<rparr> p1 q1" by auto
    from "2.IH"(1) [OF True refl c t r1] obtain q2
      where t': "term_rule q1 = Inr (right, q2)"
        and r2: "in_step e t \<lparr>lexer = lx, current_token = tok\<rparr> p2 q2" by blast
    from "2.IH"(2) [OF True refl c t refl l r2] obtain q'
      where l': "expr_loop (BinaryOpNode (type (current_token p)) node right) q2 = Inr (n, q')"
        and r': "in_step e t \<lparr>lexer = lx, current_token = tok\<rparr> p' q'" by blast
    from True cq c' t' l' have "expr_loop node q = Inr (n, q')"
      by (subst expr_loop.simps) (simp add: Let_def)
    with r' show ?thesis by blast
  next
    case False
    with "2.prems"(1) have "n = node" and "p' = p"
      by (subst (asm) expr_loop.simps, simp)+
    moreover from False ty(1) have "expr_loop node q = Inr (node, q)"
      by (subst expr_loop.simps) simp
    ultimately show ?thesis using "2.prems"(2) by blast
  qed
next
  case (3 p)
  from "3.prems"(1) obtain node p1
    where t: "factor p = Inr (node, p1)" and l: "term_loop node p1 = Inr (n, p')"
    by (auto simp: term_rule.simps split: sum.splits)
  from "3.IH"(1) [OF t "3.prems"(2)] obtain q1
    where t': "factor q = Inr (node, q1)"
      and r1: "in_step e t \<lparr>lexer = lx, current_token = tok\<rparr> p1 q1" by blast
  from "3.IH"(2) [OF t refl l r1] obtain q'
    where "term_loop node q1 = Inr (n, q')"
      and "in_step e t \<lparr>lexer = lx, current_token = tok\<rparr> p' q'" by blast
  with t' show ?case by (auto simp: term_rule.simps)
next
  case (4 node p)
  note ty = in_step_type [OF "4.prems"(2) np nm]
  show ?case
  proof (cases "type (current_token p) = MUL")
    case True
    with "4.prems"(1) obtain p1 right p2
      where c: "consume p MUL = Inr p1" and t: "factor p1 = Inr (right, p2)"
        and l: "term_loop (BinaryOpNode (type (current_token p)) node right) p2 = Inr (n, p')"
      by (subst (asm) term_loop.simps) (auto simp: Let_def split: sum.splits)
    from True have cq: "current_token q = current_token p" by (simp add: ty(3))
    from consume_in_step [OF ap nx "4.prems"(2) _ c] obtain q1
      where c': "consume q MUL = Inr q1"
        and r1: "in_step e t \<lparr>lexer = lx, current_token = tok\<rparr> p1 q1" by auto
    from "4.IH"(1) [OF True refl c t r1] obtain q2
      where t': "factor q1 = Inr (right, q2)"
        and r2: "in_step e t \<lparr>lexer = lx, current_token = tok\<rparr> p2 q2" by blast
    from "4.IH"(2) [OF True refl c t refl l r2] obtain q'
      where l': "term_loop (BinaryOpNode (type (current_token p)) node right) q2 = Inr (n, q')"
        and r': "in_step e t \<lparr>lexer = lx, current_token = tok\<rparr> p' q'" by blast
    from True cq c' t' l' have "term_loop node q = Inr (n, q')"
      by (subst term_loop.simps) (simp add: Let_def)
    with r' show ?thesis by blast
  next
    case False
    with "4.prems"(1) have "n = node" and "p' = p"
      by (subst (asm) term_loop.simps, simp)+
    moreover from False ty(2) have "term_loop node q = Inr (node, q)"
      by (subst term_loop.simps) simp
    ultimately show ?thesis using "4.prems"(2) by blast
  qed
next
  case (5 p)
  note ty = in_step_type [OF "5.prems"(2) np nm]
  show ?case
  proof (cases "type (current_token p) = NUMBER")
    case True
    with "5.prems"(1) obtain p1
      where c: "consume p NUMBER = Inr p1" and n: "n = NumberNode (value' (current_token p))"
        and p': "p' = p1"
      by (auto simp: factor.simps Let_def split: sum.splits)
    from True have cq: "current_token q = current_token p" by (simp add: ty(3))
    from consume_in_step [OF ap nx "5.prems"(2) _ c] obtain q1
      where c': "consume q NUMBER = Inr q1"
        and r1: "in_step e t \<lparr>lexer = lx, current_token = tok\<rparr> p1 q1" by auto
    from True cq c' n have "factor q = Inr (n, q1)"
      by (simp add: factor.simps Let_def)
    with r1 p' show ?thesis by blast
  next
    case False
    with "5.prems"(1) obtain p1 p2
      where lp: "type (current_token p) = LPAREN" and c: "consume p LPAREN = Inr p1"
        and ex: "expr p1 = Inr (n, p2)" and c2: "consume p2 RPAREN = Inr p'"
      by (auto simp: factor.simps split: sum.splits if_splits)
    from lp have cq: "current_token q = current_token p" by (simp add: ty(3))
    from consume_in_step [OF ap nx "5.prems"(2) _ c] obtain q1
      where c': "consume q LPAREN = Inr q1"
        and r1: "in_step e t \<lparr>lexer = lx, current_token = tok\<rparr> p1 q1" by auto
    from "5.IH" [OF False lp c ex r1] obtain q2
      where ex': "expr q1 = Inr (n, q2)"
        and r2: "in_step e t \<lparr>lexer = lx, current_token = tok\<rparr> p2 q2" by blast
    from consume_in_step [OF ap nx r2 _ c2] obtain q'
      where c2': "consume q2 RPAREN = Inr q'"
        and r': "in_step e t \<lparr>lexer = lx, current_token = tok\<rparr> p' q'" by auto
    from lp cq c' ex' c2' have "factor q = Inr (n, q')"
      by (simp add: factor.simps)
    with r' show ?thesis by blast
  qed
qed

text \<open>
  C7. \<^verbatim>\<open>parse\<close> does not ask for the end of the input after \<^verbatim>\<open>expr\<close>. Let the line \<open>e\<close> be
  an expression: \<^verbatim>\<open>parse\<close> returns the tree \<open>ast\<close> on it and has read it to its end. Let \<open>t\<close>
  be any text after it whose first token the lexer can read and is neither \<^verbatim>\<open>PLUS\<close> nor
  \<^verbatim>\<open>MUL\<close> (a number, a parenthesis, or the end of the input), no literal running from \<open>e\<close>
  into \<open>t\<close>. Then on the line \<open>e @ t\<close> \<^verbatim>\<open>parse\<close> succeeds with the same tree \<open>ast\<close>. The parser
  is left with the first token of \<open>t\<close> as its current token, and nothing reads it or
  what follows it. For \<^verbatim>\<open>1+2\<close> and \<^verbatim>\<open>)\<close> this is the line \<^verbatim>\<open>1+2)\<close>, with the tree
  \<open>BinaryOp(+, Number(1), Number(2))\<close>, which evaluates to 3.
\<close>

theorem trailing_tokens_ignored:
  assumes "parse_input e = Inr (ast, p)"
    and "type (current_token p) = END"
    and "apart e t"
    and "getNextToken \<lparr>input = e @ t, pos = length e\<rparr> = Inr (tok, lx)"
    and "type tok \<noteq> PLUS" and "type tok \<noteq> MUL"
  shows "parse_input (e @ t) = Inr (ast, \<lparr>lexer = lx, current_token = tok\<rparr>)"
proof -
  from assms(1) obtain tk lp where g: "getNextToken \<lparr>input = e, pos = 0\<rparr> = Inr (tk, lp)"
    and ex: "expr \<lparr>lexer = lp, current_token = tk\<rparr> = Inr (ast, p)"
    by (auto simp: parse_input_def Parser_of_def Lexer_of_def parse_def split: sum.splits)
  note pre = getNextToken_prefix [OF _ apart_takeWhile [OF assms(3)] g]
  from getNextToken_input [OF g] have i: "input lp = e" by simp
  obtain q0 where p0: "Parser_of (Lexer_of (e @ t)) = Inr q0"
    and r0: "in_step e t \<lparr>lexer = lx, current_token = tok\<rparr> \<lparr>lexer = lp, current_token = tk\<rparr> q0"
  proof (cases "type tk = END")
    case True
    with pre assms(4) have "getNextToken \<lparr>input = e @ t, pos = 0\<rparr> = Inr (tok, lx)" by simp
    then have "Parser_of (Lexer_of (e @ t)) = Inr \<lparr>lexer = lx, current_token = tok\<rparr>"
      by (simp add: Parser_of_def Lexer_of_def)
    moreover from True i have "in_step e t \<lparr>lexer = lx, current_token = tok\<rparr>
        \<lparr>lexer = lp, current_token = tk\<rparr> \<lparr>lexer = lx, current_token = tok\<rparr>"
      by (simp add: in_step_def)
    ultimately show ?thesis by (rule that)
  next
    case False
    with pre have le: "pos lp \<le> length e"
      and "getNextToken \<lparr>input = e @ t, pos = 0\<rparr> = Inr (tk, \<lparr>input = e @ t, pos = pos lp\<rparr>)"
      by simp_all
    then have "Parser_of (Lexer_of (e @ t))
        = Inr \<lparr>lexer = \<lparr>input = e @ t, pos = pos lp\<rparr>, current_token = tk\<rparr>"
      by (simp add: Parser_of_def Lexer_of_def)
    moreover from False i le have "in_step e t \<lparr>lexer = lx, current_token = tok\<rparr>
        \<lparr>lexer = lp, current_token = tk\<rparr>
        \<lparr>lexer = \<lparr>input = e @ t, pos = pos lp\<rparr>, current_token = tk\<rparr>"
      by (simp add: in_step_def)
    ultimately show ?thesis by (rule that)
  qed
  from parser_in_step(1) [OF assms(3,4,5,6) ex r0] obtain q'
    where ex': "expr q0 = Inr (ast, q')"
      and r': "in_step e t \<lparr>lexer = lx, current_token = tok\<rparr> p q'" by blast
  from r' assms(2) have "q' = \<lparr>lexer = lx, current_token = tok\<rparr>" by (simp add: in_step_def)
  with p0 ex' show ?thesis by (simp add: parse_input_def parse_def)
qed

theorem trailing_tokens_ignored_witness:
  "parse_input ''1+2''
     = Inr (BinaryOpNode PLUS (NumberNode (double_of_nat 1)) (NumberNode (double_of_nat 2)),
            \<lparr>lexer = \<lparr>input = ''1+2'', pos = 3\<rparr>, current_token = Token_of END\<rparr>)
   \<and> apart ''1+2'' '')''
   \<and> getNextToken \<lparr>input = ''1+2)'', pos = 3\<rparr>
     = Inr (Token_of RPAREN, \<lparr>input = ''1+2)'', pos = 4\<rparr>)
   \<and> parse_input ''1+2)''
     = Inr (BinaryOpNode PLUS (NumberNode (double_of_nat 1)) (NumberNode (double_of_nat 2)),
            \<lparr>lexer = \<lparr>input = ''1+2)'', pos = 4\<rparr>, current_token = Token_of RPAREN\<rparr>)
   \<and> evaluate (BinaryOpNode PLUS (NumberNode (double_of_nat 1)) (NumberNode (double_of_nat 2)))
     = Inr (double_of_nat 3)
   \<and> valof (double_of_nat 1) = Some 1 \<and> valof (double_of_nat 2) = Some 2
   \<and> valof (double_of_nat 3) = Some 3"
proof -
  have a: "parse_input ''1+2''
     = Inr (BinaryOpNode PLUS (NumberNode (double_of_nat 1)) (NumberNode (double_of_nat 2)),
            \<lparr>lexer = \<lparr>input = ''1+2'', pos = 3\<rparr>, current_token = Token_of END\<rparr>)"
    by (simp add: parser_eval lexer_eval double_eval double_of_nat_values cong: let_weak_cong)
  have b: "type (current_token \<lparr>lexer = \<lparr>input = ''1+2'', pos = 3\<rparr>,
      current_token = Token_of END\<rparr>) = END"
    by (simp add: Token_of_def)
  have c: "apart ''1+2'' '')''"
    by (simp add: apart_def isdigit_def)
  have d: "getNextToken \<lparr>input = ''1+2)'', pos = 3\<rparr>
     = Inr (Token_of RPAREN, \<lparr>input = ''1+2)'', pos = 4\<rparr>)"
    by (simp add: lexer_eval cong: let_weak_cong)
  then have d': "getNextToken \<lparr>input = ''1+2'' @ '')'', pos = length ''1+2''\<rparr>
     = Inr (Token_of RPAREN, \<lparr>input = ''1+2)'', pos = 4\<rparr>)"
    by (simp add: numeral_3_eq_3)
  have e: "type (Token_of RPAREN) \<noteq> PLUS" "type (Token_of RPAREN) \<noteq> MUL"
    by (simp_all add: Token_of_def)
  have f: "evaluate (BinaryOpNode PLUS (NumberNode (double_of_nat 1)) (NumberNode (double_of_nat 2)))
     = Inr (double_of_nat 3)
   \<and> valof (double_of_nat 1) = Some 1 \<and> valof (double_of_nat 2) = Some 2
   \<and> valof (double_of_nat 3) = Some 3"
    by (simp add: double_eval double_of_nat_values cong: let_weak_cong)
  from trailing_tokens_ignored [OF a b c d' e]
  have g: "parse_input ''1+2)''
     = Inr (BinaryOpNode PLUS (NumberNode (double_of_nat 1)) (NumberNode (double_of_nat 2)),
            \<lparr>lexer = \<lparr>input = ''1+2)'', pos = 4\<rparr>, current_token = Token_of RPAREN\<rparr>)"
    by simp
  from a c d g f show ?thesis by blast
qed

section \<open>The read loop at the end of the input\<close>

lemma main_loop_returns_not_running:
  assumes "main_loop b w = Some y"
  shows "\<not> b"
proof (rule main_loop.raw_induct [where P = "\<lambda>b w y. \<not> b" and is_running = b and w = w and y = y])
  show "main_loop b w = Some y" by fact
next
  fix f :: "bool \<Rightarrow> World \<Rightarrow> World option" and is_running w y
  assume IH: "\<And>b w y. f b w = Some y \<Longrightarrow> \<not> b"
    and step: "(if is_running then f is_running (main_body w) else Some w) = Some y"
  show "\<not> is_running"
  proof
    assume r: is_running
    with step have "f is_running (main_body w) = Some y" by simp
    from IH [OF this] r show False by simp
  qed
qed

lemma main_loop_diverges: "main_loop True w = None"
proof (cases "main_loop True w")
  case None
  then show ?thesis .
next
  case (Some y)
  from main_loop_returns_not_running [OF this] show ?thesis by simp
qed

lemma main_never_returns: "main w = None"
  by (simp add: main_def main_loop_diverges)

text \<open>
  C9 fails on the code. With nothing left to read, \<^verbatim>\<open>std::getline\<close> leaves the line empty;
  the body of the loop prints the prompt, fails to parse the empty line, reports the
  exception of \<^verbatim>\<open>factor\<close> and leaves the stream as exhausted as before. Nothing assigns to
  \<^verbatim>\<open>is_running\<close> and nothing looks at the state of \<^verbatim>\<open>std::cin\<close>, so the loop goes through
  the same body again and again: \<^verbatim>\<open>main\<close> does not return.
\<close>

theorem main_spins_at_end_of_input:
  "getline \<lparr>cin = [], cout = ''>>> '', cerr = []\<rparr>
     = ([], \<lparr>cin = [], cout = ''>>> '', cerr = []\<rparr>)
   \<and> main_body \<lparr>cin = [], cout = [], cerr = []\<rparr>
     = \<lparr>cin = [], cout = ''>>> '', cerr = [runtime_error ''Expected number or parentheses'']\<rparr>
   \<and> main_loop True \<lparr>cin = [], cout = [], cerr = []\<rparr> = None
   \<and> main \<lparr>cin = [], cout = [], cerr = []\<rparr> = None"
  by (simp add: main_never_returns main_loop_diverges main_body_def getline_def try_line_def
      parser_eval lexer_eval cong: let_weak_cong)

end
